theory Spec2Isabelle
  imports Main
begin

section \<open>Values, objects and schemas\<close>

text \<open>
  The library manipulates plain JavaScript values. A plain object is modelled as the list
  of its own enumerable properties in enumeration order (an association list whose keys
  are pairwise distinct for every object that JavaScript can build); \<open>for (key in o)\<close>
  walks that list. Numbers are opaque to the code under study and are kept as integers.
  An \<open>ObjectID\<close> is the driver's 12-byte identifier, kept as the number its bytes denote.
\<close>

datatype ObjectID = ObjectID nat

datatype jsval =
    JUndefined
  | JNull
  | JBool bool
  | JNum int
  | JStr string
  | JOid ObjectID
  | JDate int
  | JArr "jsval list"
  | JObj "(string \<times> jsval) list"

type_synonym obj = "(string \<times> jsval) list"

text \<open>
  What the code throws: an \<open>Error\<close> or a \<open>TypeError\<close> with its message, or the
  \<open>AssertionError\<close> of an \<open>assert\<close> without a message of its own, named here by the
  asserted expression. A message that renders a value (\<open>JSON.stringify\<close>) is cut where the
  rendering would start.
\<close>

datatype error =
    Error string
  | TypeError string
  | AssertionError string

definition keys :: "(string \<times> 'a) list \<Rightarrow> string list" where
  "keys ob = map fst ob"

definition hasOwnProperty :: "(string \<times> 'a) list \<Rightarrow> string \<Rightarrow> bool" where
  "hasOwnProperty ob key = (key \<in> set (keys ob))"

definition get_prop :: "obj \<Rightarrow> string \<Rightarrow> jsval" where
  "get_prop ob key = (case map_of ob key of None \<Rightarrow> JUndefined | Some v \<Rightarrow> v)"

definition delete_prop :: "obj \<Rightarrow> string \<Rightarrow> obj" where
  "delete_prop ob key = filter (\<lambda>(k, v). k \<noteq> key) ob"

definition set_prop :: "obj \<Rightarrow> string \<Rightarrow> jsval \<Rightarrow> obj" where
  "set_prop ob key v =
     (if hasOwnProperty ob key
      then map (\<lambda>(k, w). if k = key then (k, v) else (k, w)) ob
      else ob @ [(key, v)])"

definition wf_obj :: "(string \<times> 'a) list \<Rightarrow> bool" where
  "wf_obj ob = distinct (keys ob)"

text \<open>JavaScript truthiness, as used by \<open>if (x)\<close>, \<open>x || y\<close> and \<open>!x\<close>.\<close>

fun truthy :: "jsval \<Rightarrow> bool" where
  "truthy JUndefined = False"
| "truthy JNull = False"
| "truthy (JBool b) = b"
| "truthy (JNum n) = (n \<noteq> 0)"
| "truthy (JStr s) = (s \<noteq> [])"
| "truthy _ = True"

text \<open>
  \<open>FieldSpecs\<close> and \<open>Schema\<close> of \<open>types\<close>. Optional booleans are tested by the code only
  through \<open>=== true\<close>, \<open>!== true\<close> or truthiness, under all of which \<open>undefined\<close> and
  \<open>false\<close> agree, so they are plain booleans here. An optional member of another type is
  an \<open>option\<close>, \<open>None\<close> standing for \<open>undefined\<close>. The members \<open>type\<close>, \<open>default\<close> and
  \<open>fields\<close> are \<open>ftype\<close>, \<open>dflt\<close> and \<open>fields'\<close>, their own names being taken.
\<close>

datatype fieldDefault = DefaultValue jsval | DefaultFunction "unit \<Rightarrow> jsval"

datatype validationStrategy =
    ByRegExp string
  | ByNumber int
  | ByValues "jsval list"
  | ByFunction "jsval \<Rightarrow> bool"

datatype fieldType =
    TString | TNumber | TBoolean | TDate | TObjectID | TArray
  | TArrayOf fieldType
  | TFields "(string \<times> fieldSpecs) list"
and fieldSpecs =
  FieldSpecs
    (ftype: fieldType)
    (ref: "string option")
    (required: bool)
    (encrypted: bool)
    (dflt: "fieldDefault option")
    (format: "(jsval \<Rightarrow> error + jsval) option")
    (validate: "validationStrategy option")
    (random: "(unit \<Rightarrow> jsval) option")

record indexOptions =
  unique :: bool

record schemaIndex =
  spec :: obj
  options :: "indexOptions option"

record schema =
  model :: string
  collection :: string
  timestamps :: bool
  allowUpsert :: bool
  noInserts :: bool
  noInsertMany :: bool
  noUpdates :: bool
  noUpdateMany :: bool
  noDeletes :: bool
  noDeleteMany :: bool
  cascade :: "string list option"
  fields' :: "(string \<times> fieldSpecs) list"
  indexes :: "schemaIndex list option"

section \<open>sanitizeQuery\<close>

text \<open>
  \<open>sanitizeQuery\<close> deletes properties from the object it is handed, so objects handed to
  it live in a store of objects: an address is an index into the list of allocated
  objects, an object literal allocates a new cell at the end. A \<open>Query\<close> is a string, an
  \<open>ObjectID\<close> or (a reference to) an object; \<open>QOther\<close> stands for the remaining values
  (\<open>undefined\<close>, \<open>null\<close>, numbers, booleans), which fail \<open>is.object\<close>. An address
  beyond the store refers to no object and fails \<open>is.object\<close> as well.

  \<open>new ObjectID(string)\<close> belongs to the driver and is a parameter: it returns the
  identifier or throws.
\<close>

type_synonym addr = nat
type_synonym heap = "obj list"

datatype 'r query = QObjectID ObjectID | QString string | QObject 'r | QOther jsval

definition new_object :: "obj \<Rightarrow> heap \<Rightarrow> addr \<times> heap" where
  "new_object ob h = (length h, h @ [ob])"

text \<open>The body of the strict-mode loop: one iteration per key of the object.\<close>

fun strictLoop :: "schema \<Rightarrow> string list \<Rightarrow> obj \<Rightarrow> obj" where
  "strictLoop S [] ob = ob"
| "strictLoop S (key # rest) ob =
     (if key = ''_id'' then strictLoop S rest ob
      else if timestamps S \<and> key = ''createdAt'' then strictLoop S rest ob
      else if timestamps S \<and> key = ''updatedAt'' then strictLoop S rest ob
      else if hasOwnProperty (fields' S) key then strictLoop S rest ob
      else strictLoop S rest (delete_prop ob key))"

definition sanitizeQuery ::
  "(string \<Rightarrow> error + ObjectID) \<Rightarrow> schema \<Rightarrow> addr query \<Rightarrow> bool \<Rightarrow> heap
     \<Rightarrow> (error + addr) \<times> heap" where
  "sanitizeQuery newId S q strict h =
     (case q of
        QObjectID i \<Rightarrow>
          (let (a, h') = new_object [(''_id'', JOid i)] h in (Inr a, h'))
      | QString s \<Rightarrow>
          (case newId s of
             Inl e \<Rightarrow> (Inl e, h)
           | Inr i \<Rightarrow> (let (a, h') = new_object [(''_id'', JOid i)] h in (Inr a, h')))
      | QOther v \<Rightarrow> (Inl (TypeError ''`query` is expected to be an object''), h)
      | QObject a \<Rightarrow>
          (if \<not> a < length h
           then (Inl (TypeError ''`query` is expected to be an object''), h)
           else if strict
           then (Inr a, h[a := strictLoop S (keys (h ! a)) (h ! a)])
           else (Inr a, h)))"

text \<open>The keys that the strict-mode loop skips over.\<close>

definition retained :: "schema \<Rightarrow> string \<Rightarrow> bool" where
  "retained S key =
     (key = ''_id'' \<or> (timestamps S \<and> (key = ''createdAt'' \<or> key = ''updatedAt''))
      \<or> hasOwnProperty (fields' S) key)"

text \<open>
  Callers that hold a query by value and only read the sanitized result see
  \<open>sanitizeQuery\<close> as a function from the query's contents to the contents of the object
  it returns: the query is placed in a store of its own, \<open>sanitizeQuery\<close> runs there, and
  the returned reference is read.
\<close>

definition load_query :: "obj query \<Rightarrow> addr query \<times> heap" where
  "load_query q =
     (case q of
        QObjectID i \<Rightarrow> (QObjectID i, [])
      | QString s \<Rightarrow> (QString s, [])
      | QObject ob \<Rightarrow> (QObject 0, [ob])
      | QOther v \<Rightarrow> (QOther v, []))"

definition sanitizeQuery_value ::
  "(string \<Rightarrow> error + ObjectID) \<Rightarrow> schema \<Rightarrow> obj query \<Rightarrow> bool \<Rightarrow> error + obj" where
  "sanitizeQuery_value newId S q strict =
     (let (q', h) = load_query q in
      case sanitizeQuery newId S q' strict h of
        (Inl e, h') \<Rightarrow> Inl e
      | (Inr a, h') \<Rightarrow> Inr (h' ! a))"

section \<open>The model registry\<close>

text \<open>
  A model class is its static \<open>schema\<close> together with the six overridable handlers.
  A handler returns its result or throws; it does not call the store itself. The
  handlers of the base class are \<open>Model\<close> below. \<open>docs\<close> is the optional argument of the
  deletion handlers: nothing, one document, or an array of documents.
\<close>

datatype docs = NoDocs | OneDoc jsval | ManyDocs "jsval list"

record modelClass =
  schema :: schema
  willInsertDocument :: "obj \<Rightarrow> error + obj"
  didInsertDocument :: "jsval \<Rightarrow> error + unit"
  willUpdateDocument :: "obj query \<Rightarrow> obj \<Rightarrow> error + (obj query \<times> obj)"
  didUpdateDocument :: "jsval \<Rightarrow> docs \<Rightarrow> error + unit"
  willDeleteDocument :: "obj query \<Rightarrow> error + obj query"
  didDeleteDocument :: "docs \<Rightarrow> error + unit"

definition Model :: "schema \<Rightarrow> modelClass" where
  "Model S =
     \<lparr> schema = S,
       willInsertDocument = (\<lambda>doc. Inr doc),
       didInsertDocument = (\<lambda>doc. Inr ()),
       willUpdateDocument = (\<lambda>query update. Inr (query, update)),
       didUpdateDocument = (\<lambda>prevDoc newDocs. Inr ()),
       willDeleteDocument = (\<lambda>query. Inr query),
       didDeleteDocument = (\<lambda>docs. Inr ()) \<rparr>"

text \<open>\<open>options.models\<close> of the configuration: model name to model class, or undefined.\<close>

type_synonym registry = "(string \<times> modelClass) list option"

definition getModel :: "registry \<Rightarrow> string \<Rightarrow> error + modelClass" where
  "getModel models modelOrCollectionName =
     (case models of
        None \<Rightarrow> Inl (Error (''No model found for model/collection name '' @ modelOrCollectionName))
      | Some ms \<Rightarrow>
          (case map_of ms modelOrCollectionName of
             Some ModelClass \<Rightarrow> Inr ModelClass
           | None \<Rightarrow>
               (case find (\<lambda>(key, ModelClass).
                            collection (schema ModelClass) = modelOrCollectionName) ms of
                  Some (key, ModelClass) \<Rightarrow> Inr ModelClass
                | None \<Rightarrow>
                    Inl (Error (''No model found for model/collection name ''
                                @ modelOrCollectionName)))))"

section \<open>Aggregation\<close>

text \<open>
  A pipeline stage is an object with one key naming the stage. \<open>Lookup from localField
  foreignField as\<close> is \<open>{ $lookup: { from, localField, foreignField, as } }\<close>,
  \<open>Unwind path preserve\<close> is \<open>{ $unwind: { path, preserveNullAndEmptyArrays } }\<close>,
  \<open>Sample n\<close> is \<open>{ $sample: { size: n } }\<close>; the others carry their descriptor object.
\<close>

datatype stage =
    Match obj
  | Lookup string string string string
  | Unwind string bool
  | Group obj
  | Sort obj
  | Project obj
  | Sample nat

type_synonym aggregationPipeline = "stage list"

datatype lookupVal = LBool bool | LSpecs "(string \<times> lookupVal) list"

datatype groupSpecs = GroupBy string | GroupDescriptor obj

record pipelineFactorySpecs =
  s_lookup :: "(string \<times> lookupVal) list option"
  s_match :: "obj query option"
  s_prune :: "obj query option"
  s_group :: "groupSpecs option"
  s_sort :: "obj option"

definition bindE :: "error + 'a \<Rightarrow> ('a \<Rightarrow> error + 'b) \<Rightarrow> error + 'b" where
  "bindE m f = (case m of Inl e \<Rightarrow> Inl e | Inr x \<Rightarrow> f x)"

text \<open>The loop of \<open>matchStageFactory\<close>: one assignment per key of the sanitized query.\<close>

fun prefixLoop :: "string \<Rightarrow> obj \<Rightarrow> string list \<Rightarrow> obj \<Rightarrow> obj" where
  "prefixLoop prefix sanitized [] query = query"
| "prefixLoop prefix sanitized (key # rest) query =
     (if \<not> hasOwnProperty sanitized key then prefixLoop prefix sanitized rest query
      else prefixLoop prefix sanitized rest
             (set_prop query (prefix @ key) (get_prop sanitized key)))"

definition matchStageFactory ::
  "(string \<Rightarrow> error + ObjectID) \<Rightarrow> schema \<Rightarrow> obj query \<Rightarrow> string \<Rightarrow> error + aggregationPipeline" where
  "matchStageFactory newId S specs prefix =
     bindE (sanitizeQuery_value newId S specs False) (\<lambda>sanitized.
       Inr [Match (prefixLoop prefix sanitized (keys sanitized) [])])"

text \<open>
  \<open>lookupStageFactory\<close>: the loop over the keys of \<open>specs\<close>, each iteration pushing a
  \<open>$lookup\<close> and a \<open>$unwind\<close> stage and then the stages of the nested specs.
\<close>

definition fieldRef :: "schema \<Rightarrow> string \<Rightarrow> string option" where
  "fieldRef S key =
     (case map_of (fields' S) key of
        None \<Rightarrow> None
      | Some f \<Rightarrow> (case ref f of None \<Rightarrow> None | Some r \<Rightarrow> if r = [] then None else Some r))"

fun lookupStageFactory ::
  "registry \<Rightarrow> schema \<Rightarrow> (string \<times> lookupVal) list \<Rightarrow> string \<Rightarrow> string \<Rightarrow> error + aggregationPipeline" where
  "lookupStageFactory R S [] fromPrefix toPrefix = Inr []"
| "lookupStageFactory R S ((key, LBool False) # rest) fromPrefix toPrefix =
     Inl (Error ''[lookup([object Object], [object Object], [object Object])] Invalid populate properties.'')"
| "lookupStageFactory R S ((key, LBool True) # rest) fromPrefix toPrefix =
     (case fieldRef S key of
        None \<Rightarrow> Inl (Error ''[lookup([object Object], [object Object], [object Object])] The field to populate does not have a reference model specified in the schema.'')
      | Some r \<Rightarrow>
          bindE (getModel R r) (\<lambda>ModelClass.
            let schemaRef = schema ModelClass;
                pipe = [Lookup (collection schemaRef) (fromPrefix @ key) ''_id'' (toPrefix @ key),
                        Unwind (''$'' @ toPrefix @ key) True]
            in bindE (lookupStageFactory R S rest fromPrefix toPrefix) (\<lambda>more.
                 Inr (pipe @ more))))"
| "lookupStageFactory R S ((key, LSpecs val) # rest) fromPrefix toPrefix =
     (case fieldRef S key of
        None \<Rightarrow> Inl (Error ''[lookup([object Object], [object Object], [object Object])] The field to populate does not have a reference model specified in the schema.'')
      | Some r \<Rightarrow>
          bindE (getModel R r) (\<lambda>ModelClass.
            let schemaRef = schema ModelClass;
                pipe = [Lookup (collection schemaRef) (fromPrefix @ key) ''_id'' (toPrefix @ key),
                        Unwind (''$'' @ toPrefix @ key) True]
            in bindE (lookupStageFactory R schemaRef val
                        (toPrefix @ key @ ''.'') (toPrefix @ key @ ''.'')) (\<lambda>nested.
               bindE (lookupStageFactory R S rest fromPrefix toPrefix) (\<lambda>more.
                 Inr (pipe @ nested @ more)))))"

definition groupStageFactory :: "schema \<Rightarrow> groupSpecs \<Rightarrow> aggregationPipeline" where
  "groupStageFactory S specs =
     (case specs of
        GroupBy name \<Rightarrow> [Group [(''_id'', JStr (''$'' @ name))]]
      | GroupDescriptor d \<Rightarrow> [Group d])"

definition sortStageFactory :: "schema \<Rightarrow> obj \<Rightarrow> aggregationPipeline" where
  "sortStageFactory S specs = [Sort specs]"

text \<open>
  \<open>pipelineFactory\<close>. \<open>bad_descriptor\<close> is the type check on \<open>$match\<close> and \<open>$prune\<close>
  (the other three sub-specs and the two options have the checked type by their
  declaration), \<open>given\<close> is the truthiness test \<open>if ($match)\<close>.
\<close>

definition bad_descriptor :: "obj query option \<Rightarrow> bool" where
  "bad_descriptor q = (case q of Some (QOther v) \<Rightarrow> v \<noteq> JUndefined | _ \<Rightarrow> False)"

definition given_query :: "obj query option \<Rightarrow> obj query option" where
  "given_query q =
     (case q of
        None \<Rightarrow> None
      | Some (QString s) \<Rightarrow> if s = [] then None else Some (QString s)
      | Some (QOther v) \<Rightarrow> if truthy v then Some (QOther v) else None
      | Some q' \<Rightarrow> Some q')"

definition given_group :: "groupSpecs option \<Rightarrow> groupSpecs option" where
  "given_group g =
     (case g of
        Some (GroupBy name) \<Rightarrow> if name = [] then None else Some (GroupBy name)
      | g' \<Rightarrow> g')"

definition pipelineFactory ::
  "(string \<Rightarrow> error + ObjectID) \<Rightarrow> registry \<Rightarrow> schema \<Rightarrow> pipelineFactorySpecs
     \<Rightarrow> string \<Rightarrow> aggregationPipeline \<Rightarrow> error + aggregationPipeline" where
  "pipelineFactory newId R S specs prefix pipeline =
     (if bad_descriptor (s_match specs) then Inl (Error ''Bad $match descriptor provided'')
      else if bad_descriptor (s_prune specs) then Inl (Error ''Bad $prune descriptor provided'')
      else
        bindE (case s_lookup specs of
                 None \<Rightarrow> Inr pipeline
               | Some l \<Rightarrow> bindE (lookupStageFactory R S l prefix prefix) (\<lambda>st. Inr (st @ pipeline)))
          (\<lambda>pipeline1.
        bindE (case given_query (s_match specs) of
                 None \<Rightarrow> Inr pipeline1
               | Some m \<Rightarrow> bindE (matchStageFactory newId S m prefix) (\<lambda>st. Inr (st @ pipeline1)))
          (\<lambda>pipeline2.
        bindE (case given_query (s_prune specs) of
                 None \<Rightarrow> Inr pipeline2
               | Some p \<Rightarrow> bindE (matchStageFactory newId S p []) (\<lambda>st. Inr (pipeline2 @ st)))
          (\<lambda>pipeline3.
        let pipeline4 = (case given_group (s_group specs) of
                           None \<Rightarrow> pipeline3
                         | Some g \<Rightarrow> pipeline3 @ groupStageFactory S g);
            pipeline5 = (case s_sort specs of
                           None \<Rightarrow> pipeline4
                         | Some s \<Rightarrow> pipeline4 @ sortStageFactory S s)
        in Inr pipeline5))))"

section \<open>The store and the environment of the engine\<close>

text \<open>
  The collection primitives of the driver are parameters. Each takes the state of the
  store and returns the driver's answer (or the error it rejects with) and the new state.
  The world of the engine is the state of the store together with the trace of the
  primitive calls issued so far. The other parameters are what the engine takes from
  outside this code: the identifier constructor, the clock, the hash, the registry of
  models, and the two helpers \<open>sanitizeDocument\<close> and \<open>validateFieldValue\<close>.
\<close>

record options =
  strict :: "bool option"
  ignoreUniqueIndex :: "bool option"
  ignoreTimestamps :: bool
  upsert :: bool
  returnDoc :: bool
  returnDocs :: bool
  skipHooks :: bool
  returnOriginal :: "bool option"

definition noOptions :: options where
  "noOptions =
     \<lparr> strict = None, ignoreUniqueIndex = None, ignoreTimestamps = False, upsert = False,
       returnDoc = False, returnDocs = False, skipHooks = False, returnOriginal = None \<rparr>"

datatype call =
    Aggregate string aggregationPipeline
  | InsertOne string obj options
  | InsertMany string "obj list" options
  | UpdateOne string jsval obj options
  | UpdateMany string jsval obj options
  | FindOneAndUpdate string jsval obj options
  | DeleteOne string jsval options
  | DeleteMany string jsval options
  | FindOneAndDelete string jsval
  | FindOneAndReplace string jsval obj options

text \<open>
  \<open>InsertResult ok ops\<close>: \<open>result.ok === 1\<close> and \<open>ops\<close>.
  \<open>WriteResult ok n\<close>: \<open>result.ok === 1\<close> and \<open>result.n\<close> when it is a number.
  \<open>FindAndModifyResult ok value upserted\<close>: \<open>ok === 1\<close>, \<open>value\<close> and
  \<open>lastErrorObject.upserted\<close>.
\<close>

datatype insertResult = InsertResult bool "jsval list"
datatype writeResult = WriteResult bool "int option"
datatype findAndModifyResult = FindAndModifyResult bool jsval jsval

record 's env =
  new_ObjectID :: "string \<Rightarrow> error + ObjectID"
  new_Date :: int
  bcrypt_hash :: "jsval \<Rightarrow> string"
  sanitizeDocument :: "schema \<Rightarrow> jsval \<Rightarrow> obj"
  validateFieldValue :: "jsval \<Rightarrow> fieldSpecs \<Rightarrow> bool"
  models :: registry
  c_aggregate :: "string \<Rightarrow> aggregationPipeline \<Rightarrow> 's \<Rightarrow> (error + jsval list) \<times> 's"
  c_insertOne :: "string \<Rightarrow> obj \<Rightarrow> options \<Rightarrow> 's \<Rightarrow> (error + insertResult) \<times> 's"
  c_insertMany :: "string \<Rightarrow> obj list \<Rightarrow> options \<Rightarrow> 's \<Rightarrow> (error + insertResult) \<times> 's"
  c_updateOne :: "string \<Rightarrow> jsval \<Rightarrow> obj \<Rightarrow> options \<Rightarrow> 's \<Rightarrow> (error + writeResult) \<times> 's"
  c_updateMany :: "string \<Rightarrow> jsval \<Rightarrow> obj \<Rightarrow> options \<Rightarrow> 's \<Rightarrow> (error + writeResult) \<times> 's"
  c_findOneAndUpdate ::
    "string \<Rightarrow> jsval \<Rightarrow> obj \<Rightarrow> options \<Rightarrow> 's \<Rightarrow> (error + findAndModifyResult) \<times> 's"
  c_deleteOne :: "string \<Rightarrow> jsval \<Rightarrow> options \<Rightarrow> 's \<Rightarrow> (error + writeResult) \<times> 's"
  c_deleteMany :: "string \<Rightarrow> jsval \<Rightarrow> options \<Rightarrow> 's \<Rightarrow> (error + writeResult) \<times> 's"
  c_findOneAndDelete :: "string \<Rightarrow> jsval \<Rightarrow> 's \<Rightarrow> (error + findAndModifyResult) \<times> 's"
  c_findOneAndReplace ::
    "string \<Rightarrow> jsval \<Rightarrow> obj \<Rightarrow> options \<Rightarrow> 's \<Rightarrow> (error + findAndModifyResult) \<times> 's"

record 's world =
  store :: 's
  trace :: "call list"

type_synonym ('s, 'a) io = "'s world \<Rightarrow> (error + 'a) \<times> 's world"

definition returnIO :: "'a \<Rightarrow> ('s, 'a) io" where
  "returnIO x w = (Inr x, w)"

definition throwIO :: "error \<Rightarrow> ('s, 'a) io" where
  "throwIO e w = (Inl e, w)"

definition liftE :: "error + 'a \<Rightarrow> ('s, 'a) io" where
  "liftE m w = (m, w)"

definition bindIO :: "('s, 'a) io \<Rightarrow> ('a \<Rightarrow> ('s, 'b) io) \<Rightarrow> ('s, 'b) io" where
  "bindIO m f w = (case m w of (Inl e, w') \<Rightarrow> (Inl e, w') | (Inr x, w') \<Rightarrow> f x w')"

text \<open>Issuing a primitive: the call is appended to the trace and the driver answers.\<close>

definition invoke :: "call \<Rightarrow> ('s \<Rightarrow> (error + 'r) \<times> 's) \<Rightarrow> ('s, 'r) io" where
  "invoke c f w =
     (let (r, s') = f (store w) in (r, \<lparr> store = s', trace = trace w @ [c] \<rparr>))"

section \<open>Model: helpers\<close>

definition member :: "jsval \<Rightarrow> string \<Rightarrow> jsval" where
  "member v key = (case v of JObj ob \<Rightarrow> get_prop ob key | _ \<Rightarrow> JUndefined)"



definition query_of :: "jsval \<Rightarrow> obj query" where
  "query_of v =
     (case v of
        JStr s \<Rightarrow> QString s
      | JOid i \<Rightarrow> QObjectID i
      | JObj ob \<Rightarrow> QObject ob
      | _ \<Rightarrow> QOther v)"

definition startsWithDollar :: "string \<Rightarrow> bool" where
  "startsWithDollar s = (case s of [] \<Rightarrow> False | c # cs \<Rightarrow> c = CHR ''$'')"




definition pick :: "obj \<Rightarrow> string list \<Rightarrow> obj" where
  "pick a ks = map (\<lambda>k. (k, get_prop a k)) (filter (hasOwnProperty a) ks)"

text \<open>
  \<open>getCollection\<close> hands out the collection of the schema; it is connection management
  and issues none of the primitives above.
\<close>

definition getCollection :: "modelClass \<Rightarrow> string" where
  "getCollection M = collection (schema M)"

section \<open>Model.randomFields and Model.pipeline\<close>



text \<open>
  \<open>Model.pipeline\<close> reads an object with a key that starts with \<open>$\<close> as factory specs.
  \<open>asSpecs\<close> is that reading, with the type checks that \<open>pipelineFactory\<close> makes on the
  five members, in its order. Descriptors are values of their declared types (strings,
  identifiers, plain objects, booleans); any other value is refused as a bad descriptor.
\<close>

fun lookupVal_of :: "jsval \<Rightarrow> lookupVal" where
  "lookupVal_of (JBool b) = LBool b"
| "lookupVal_of (JObj ob) = LSpecs (map (\<lambda>(k, v). (k, lookupVal_of v)) ob)"
| "lookupVal_of v = LBool False"

definition asSpecs :: "obj \<Rightarrow> error + pipelineFactorySpecs" where
  "asSpecs ob =
     (let m = get_prop ob ''$match''; l = get_prop ob ''$lookup''; p = get_prop ob ''$prune'';
          g = get_prop ob ''$group''; s = get_prop ob ''$sort''
      in
      if bad_descriptor (Some (query_of m)) then Inl (Error ''Bad $match descriptor provided'')
      else bindE (case l of
                    JUndefined \<Rightarrow> Inr None
                  | JObj lo \<Rightarrow> Inr (Some (map (\<lambda>(k, v). (k, lookupVal_of v)) lo))
                  | _ \<Rightarrow> Inl (Error ''Bad $lookup descriptor provided'')) (\<lambda>l'.
        if bad_descriptor (Some (query_of p)) then Inl (Error ''Bad $prune descriptor provided'')
        else bindE (case g of
                      JUndefined \<Rightarrow> Inr None
                    | JStr name \<Rightarrow> Inr (Some (GroupBy name))
                    | JObj d \<Rightarrow> Inr (Some (GroupDescriptor d))
                    | _ \<Rightarrow> Inl (Error ''Bad $group descriptor provided'')) (\<lambda>g'.
             bindE (case s of
                      JUndefined \<Rightarrow> Inr None
                    | JObj d \<Rightarrow> Inr (Some d)
                    | _ \<Rightarrow> Inl (Error ''Bad $sort descriptor provided'')) (\<lambda>s'.
               Inr \<lparr> s_lookup = l', s_match = Some (query_of m), s_prune = Some (query_of p),
                     s_group = g', s_sort = s' \<rparr>))))"

definition pipeline :: "'s env \<Rightarrow> modelClass \<Rightarrow> obj query \<Rightarrow> error + aggregationPipeline" where
  "pipeline E M queryOrSpecs =
     (case queryOrSpecs of
        QObject ob \<Rightarrow>
          (if list_ex startsWithDollar (keys ob)
           then bindE (asSpecs ob) (\<lambda>specs.
                  pipelineFactory (new_ObjectID E) (models E) (schema M) specs [] [])
           else pipelineFactory (new_ObjectID E) (models E) (schema M)
                  \<lparr> s_lookup = None, s_match = Some queryOrSpecs, s_prune = None,
                    s_group = None, s_sort = None \<rparr> [] [])
      | _ \<Rightarrow> pipelineFactory (new_ObjectID E) (models E) (schema M)
                  \<lparr> s_lookup = None, s_match = Some queryOrSpecs, s_prune = None,
                    s_group = None, s_sort = None \<rparr> [] [])"

section \<open>Model: reading\<close>

definition findMany :: "'s env \<Rightarrow> modelClass \<Rightarrow> obj query \<Rightarrow> ('s, jsval list) io" where
  "findMany E M query =
     bindIO (liftE (pipeline E M query)) (\<lambda>p.
       invoke (Aggregate (getCollection M) p) (c_aggregate E (getCollection M) p))"

definition findOne :: "'s env \<Rightarrow> modelClass \<Rightarrow> obj query \<Rightarrow> ('s, jsval) io" where
  "findOne E M query =
     (if query = QOther JUndefined \<or> query = QOther JNull
      then bindIO (liftE (pipeline E M query)) (\<lambda>p.
             bindIO (invoke (Aggregate (getCollection M) (p @ [Sample 1]))
                       (c_aggregate E (getCollection M) (p @ [Sample 1]))) (\<lambda>results.
               if \<not> length results \<le> 1
               then throwIO (Error ''More than 1 random document found even though only 1 was supposed to be found.'')
               else (case results of [r] \<Rightarrow> returnIO r | _ \<Rightarrow> returnIO JNull)))
      else bindIO (findMany E M query) (\<lambda>results.
             case results of [] \<Rightarrow> returnIO JNull | r # rs \<Rightarrow> returnIO r))"


section \<open>Model.formatDocument and Model.validateDocument\<close>



text \<open>The three loops of \<open>validateDocument\<close>: over the document, the indexes, the schema.\<close>

fun validateLoop :: "'s env \<Rightarrow> schema \<Rightarrow> obj \<Rightarrow> string list \<Rightarrow> error + unit" where
  "validateLoop E S doc [] = Inr ()"
| "validateLoop E S doc (key # rest) =
     (if key = ''_id'' then validateLoop E S doc rest
      else if timestamps S \<and> key = ''updatedAt'' then validateLoop E S doc rest
      else if timestamps S \<and> key = ''createdAt'' then validateLoop E S doc rest
      else
        (case map_of (fields' S) key of
           None \<Rightarrow>
             Inl (Error (''The field '' @ [CHR 0x27] @ key @ [CHR 0x27]
                         @ '' is not defined in the schema''))
         | Some fieldSpecs \<Rightarrow>
             if \<not> validateFieldValue E (get_prop doc key) fieldSpecs
             then Inl (Error (''Error validating field '' @ [CHR 0x27] @ key @ [CHR 0x27]))
             else validateLoop E S doc rest))"

fun uniqueLoop :: "'s env \<Rightarrow> modelClass \<Rightarrow> obj \<Rightarrow> schemaIndex list \<Rightarrow> ('s, unit) io" where
  "uniqueLoop E M doc [] w = (Inr (), w)"
| "uniqueLoop E M doc (index # rest) w =
     (case options index of
        None \<Rightarrow> uniqueLoop E M doc rest w
      | Some opts \<Rightarrow>
          if \<not> unique opts then uniqueLoop E M doc rest w
          else if \<not> list_all (\<lambda>v. v \<in> set (keys doc)) (keys (spec index))
          then uniqueLoop E M doc rest w
          else
            (case findOne E M (QObject (pick doc (keys (spec index)))) w of
               (Inl e, w') \<Rightarrow> (Inl e, w')
             | (Inr found, w') \<Rightarrow>
                 if truthy found
                 then (Inl (Error ''Another document already exists with''), w')
                 else uniqueLoop E M doc rest w'))"

definition default_truthy :: "fieldSpecs \<Rightarrow> bool" where
  "default_truthy field =
     (case dflt field of
        None \<Rightarrow> False
      | Some (DefaultValue v) \<Rightarrow> truthy v
      | Some (DefaultFunction f) \<Rightarrow> True)"

fun requiredLoop :: "(string \<times> fieldSpecs) list \<Rightarrow> obj \<Rightarrow> error + unit" where
  "requiredLoop [] doc = Inr ()"
| "requiredLoop ((key, field) # rest) doc =
     (if \<not> required field \<or> default_truthy field then requiredLoop rest doc
      else if \<not> hasOwnProperty doc key
      then Inl (Error (''Missing required field '' @ [CHR 0x27] @ key @ [CHR 0x27]))
      else requiredLoop rest doc)"

definition validateDocument :: "'s env \<Rightarrow> modelClass \<Rightarrow> jsval \<Rightarrow> options \<Rightarrow> ('s, bool) io" where
  "validateDocument E M doc opts =
     (case doc of
        JObj d \<Rightarrow>
          if d = [] then throwIO (Error ''Empty objects are not permitted'')
          else
            bindIO (liftE (validateLoop E (schema M) d (keys d))) (\<lambda>_.
            bindIO (if ignoreUniqueIndex opts \<noteq> Some True
                    then (case indexes (schema M) of
                            Some ixs \<Rightarrow> uniqueLoop E M d ixs
                          | None \<Rightarrow> returnIO ())
                    else returnIO ()) (\<lambda>_.
            bindIO (liftE (if strict opts = Some True
                           then requiredLoop (fields' (schema M)) d
                           else Inr ())) (\<lambda>_.
              returnIO True)))
      | _ \<Rightarrow> throwIO (Error ''Invalid document provided''))"

section \<open>Model: insertion\<close>








section \<open>Model: update\<close>


definition object_or_empty :: "jsval \<Rightarrow> obj" where
  "object_or_empty v = (case v of JObj ob \<Rightarrow> ob | _ \<Rightarrow> [])"







section \<open>Model: deletion and cascading deletion\<close>

definition beforeDelete :: "'s env \<Rightarrow> modelClass \<Rightarrow> obj query \<Rightarrow> options \<Rightarrow> error + obj" where
  "beforeDelete E M query opts =
     bindE (willDeleteDocument M query) (\<lambda>q.
       sanitizeQuery_value (new_ObjectID E) (schema M) q True)"

text \<open>The loop of \<open>deleteMany\<close> in \<open>returnDocs\<close> mode: one \<open>findOneAndDelete\<close> per document.\<close>

fun deleteEach :: "'s env \<Rightarrow> modelClass \<Rightarrow> jsval list \<Rightarrow> ('s, jsval list) io" where
  "deleteEach E M [] w = (Inr [], w)"
| "deleteEach E M (doc # rest) w =
     (case invoke (FindOneAndDelete (getCollection M) (JObj [(''_id'', member doc ''_id'')]))
             (c_findOneAndDelete E (getCollection M) (JObj [(''_id'', member doc ''_id'')])) w of
        (Inl e, w') \<Rightarrow> (Inl e, w')
      | (Inr (FindAndModifyResult ok val upserted), w') \<Rightarrow>
          if \<not> ok then (Inl (AssertionError ''result.ok === 1''), w')
          else
            (case deleteEach E M rest w' of
               (Inl e, w'') \<Rightarrow> (Inl e, w'')
             | (Inr results, w'') \<Rightarrow> (Inr (if truthy val then val # results else results), w'')))"

text \<open>
  \<open>deleteMany\<close>, \<open>afterDelete\<close> and \<open>cascadeDelete\<close> call one another through the model
  classes of the registry. The three loops are \<open>afterDeleteLoop\<close> (the documents),
  \<open>cascadeModels\<close> (the names of the cascade list) and \<open>cascadeFields\<close> (the fields of
  a dependent model).
\<close>

function
  deleteMany :: "'s env \<Rightarrow> modelClass \<Rightarrow> obj query \<Rightarrow> options \<Rightarrow> ('s, jsval) io" and
  afterDelete :: "'s env \<Rightarrow> modelClass \<Rightarrow> docs \<Rightarrow> ('s, unit) io" and
  afterDeleteLoop :: "'s env \<Rightarrow> modelClass \<Rightarrow> jsval list \<Rightarrow> ('s, unit) io" and
  cascadeDelete :: "'s env \<Rightarrow> modelClass \<Rightarrow> ObjectID \<Rightarrow> ('s, unit) io" and
  cascadeModels :: "'s env \<Rightarrow> modelClass \<Rightarrow> string list \<Rightarrow> ObjectID \<Rightarrow> ('s, unit) io" and
  cascadeFields ::
    "'s env \<Rightarrow> modelClass \<Rightarrow> modelClass \<Rightarrow> (string \<times> fieldSpecs) list \<Rightarrow> ObjectID \<Rightarrow> ('s, unit) io"
where
  "deleteMany E M query opts w =
     (if noDeletes (schema M) \<or> noDeleteMany (schema M)
      then (Inl (Error ''Multiple deletions are disallowed for this model''), w)
      else
        (case beforeDelete E M query opts of
           Inl e \<Rightarrow> (Inl e, w)
         | Inr q \<Rightarrow>
             if returnDocs opts
             then
               (case findMany E M (QObject q) w of
                  (Inl e, w1) \<Rightarrow> (Inl e, w1)
                | (Inr docs, w1) \<Rightarrow>
                    (case deleteEach E M docs w1 of
                       (Inl e, w2) \<Rightarrow> (Inl e, w2)
                     | (Inr results, w2) \<Rightarrow>
                         (case afterDelete E M (ManyDocs results) w2 of
                            (Inl e, w3) \<Rightarrow> (Inl e, w3)
                          | (Inr u, w3) \<Rightarrow> (Inr (JArr results), w3))))
             else
               (case invoke (DeleteMany (getCollection M) (JObj q) opts)
                       (c_deleteMany E (getCollection M) (JObj q) opts) w of
                  (Inl e, w1) \<Rightarrow> (Inl e, w1)
                | (Inr (WriteResult ok n), w1) \<Rightarrow>
                    if \<not> ok then (Inl (AssertionError ''results.result.ok === 1''), w1)
                    else if (case n of None \<Rightarrow> True | Some k \<Rightarrow> k \<le> 0)
                    then (Inr (JBool False), w1)
                    else
                      (case afterDelete E M NoDocs w1 of
                         (Inl e, w2) \<Rightarrow> (Inl e, w2)
                       | (Inr u, w2) \<Rightarrow> (Inr (JBool True), w2)))))"
| "afterDelete E M NoDocs w = liftE (didDeleteDocument M NoDocs) w"
| "afterDelete E M (OneDoc doc) w =
     (case member doc ''_id'' of
        JOid docId \<Rightarrow>
          (case cascadeDelete E M docId w of
             (Inl e, w') \<Rightarrow> (Inl e, w')
           | (Inr u, w') \<Rightarrow> liftE (didDeleteDocument M (OneDoc doc)) w')
      | _ \<Rightarrow> liftE (didDeleteDocument M (OneDoc doc)) w)"
| "afterDelete E M (ManyDocs ds) w =
     (case afterDeleteLoop E M ds w of
        (Inl e, w') \<Rightarrow> (Inl e, w')
      | (Inr u, w') \<Rightarrow> liftE (didDeleteDocument M (ManyDocs ds)) w')"
| "afterDeleteLoop E M [] w = (Inr (), w)"
| "afterDeleteLoop E M (doc # rest) w =
     (case member doc ''_id'' of
        JOid docId \<Rightarrow>
          (case cascadeDelete E M docId w of
             (Inl e, w') \<Rightarrow> (Inl e, w')
           | (Inr u, w') \<Rightarrow> afterDeleteLoop E M rest w')
      | _ \<Rightarrow> afterDeleteLoop E M rest w)"
| "cascadeDelete E M docId w =
     (case cascade (schema M) of
        None \<Rightarrow> (Inr (), w)
      | Some cascadeModelNames \<Rightarrow> cascadeModels E M cascadeModelNames docId w)"
| "cascadeModels E M [] docId w = (Inr (), w)"
| "cascadeModels E M (modelName # rest) docId w =
     (case getModel (models E) modelName of
        Inl e \<Rightarrow> (Inl e, w)
      | Inr ModelClass \<Rightarrow>
          (case cascadeFields E M ModelClass (fields' (schema ModelClass)) docId w of
             (Inl e, w') \<Rightarrow> (Inl e, w')
           | (Inr u, w') \<Rightarrow> cascadeModels E M rest docId w'))"
| "cascadeFields E M ModelClass [] docId w = (Inr (), w)"
| "cascadeFields E M ModelClass ((key, field) # rest) docId w =
     (if ref field = Some (model (schema M))
      then
        (case deleteMany E ModelClass (QObject [(key, JOid docId)]) noOptions w of
           (Inl e, w') \<Rightarrow> (Inl e, w')
         | (Inr r, w') \<Rightarrow> cascadeFields E M ModelClass rest docId w')
      else cascadeFields E M ModelClass rest docId w)"
  by pat_completeness auto

termination
  by (relation "measures
        [\<lambda>x. case x of
                Inl (Inl (E, M, query, opts, w)) \<Rightarrow> if returnDocs opts then 7 else (1::nat)
              | Inl (Inr (Inl (E, M, docs, w))) \<Rightarrow> (case docs of NoDocs \<Rightarrow> 0 | _ \<Rightarrow> 6)
              | Inl (Inr (Inr (E, M, ds, w))) \<Rightarrow> 5
              | Inr (Inl (E, M, docId, w)) \<Rightarrow> 4
              | Inr (Inr (Inl (E, M, names, docId, w))) \<Rightarrow> 3
              | Inr (Inr (Inr (E, M, ModelClass, fs, docId, w))) \<Rightarrow> 2,
         \<lambda>x. case x of
                Inl (Inr (Inr (E, M, ds, w))) \<Rightarrow> length ds
              | Inr (Inr (Inl (E, M, names, docId, w))) \<Rightarrow> length names
              | Inr (Inr (Inr (E, M, ModelClass, fs, docId, w))) \<Rightarrow> length fs
              | _ \<Rightarrow> 0]")
     (auto simp: noOptions_def)

declare deleteMany.simps [simp del]

definition deleteOne :: "'s env \<Rightarrow> modelClass \<Rightarrow> obj query \<Rightarrow> options \<Rightarrow> ('s, jsval) io" where
  "deleteOne E M query opts =
     (if noDeletes (schema M) then throwIO (Error ''Deletions are disallowed for this model'')
      else
        bindIO (liftE (beforeDelete E M query opts)) (\<lambda>q.
          if returnDoc opts
          then
            bindIO (invoke (FindOneAndDelete (getCollection M) (JObj q))
                      (c_findOneAndDelete E (getCollection M) (JObj q))) (\<lambda>results.
              case results of FindAndModifyResult ok val upserted \<Rightarrow>
                if \<not> ok then throwIO (AssertionError ''results.ok === 1'')
                else if \<not> truthy val then returnIO JNull
                else bindIO (afterDelete E M (OneDoc val)) (\<lambda>_. returnIO val))
          else
            bindIO (invoke (DeleteOne (getCollection M) (JObj q) opts)
                      (c_deleteOne E (getCollection M) (JObj q) opts)) (\<lambda>results.
              case results of WriteResult ok n \<Rightarrow>
                if \<not> ok then throwIO (AssertionError ''results.result.ok === 1'')
                else if (case n of None \<Rightarrow> True | Some k \<Rightarrow> k \<le> 0) then returnIO (JBool False)
                else bindIO (afterDelete E M NoDocs) (\<lambda>_. returnIO (JBool True)))))"

section \<open>Vocabulary of the statements\<close>

text \<open>
  A call is a read when it is an aggregation; every other primitive writes. \<open>documents\<close>
  lists the documents handed to the deletion handlers.
\<close>

definition is_read :: "call \<Rightarrow> bool" where
  "is_read c = (case c of Aggregate coll p \<Rightarrow> True | _ \<Rightarrow> False)"

definition documents :: "docs \<Rightarrow> jsval list" where
  "documents ds = (case ds of NoDocs \<Rightarrow> [] | OneDoc d \<Rightarrow> [d] | ManyDocs xs \<Rightarrow> xs)"

text \<open>
  The calls issued between two worlds: what the later trace has beyond the earlier one.
  \<open>trace_extends\<close> says that the later trace does continue the earlier one, \<open>read_only\<close>
  that it continues it with reads only.
\<close>

definition issued :: "'s world \<Rightarrow> 's world \<Rightarrow> call list" where
  "issued w w' = drop (length (trace w)) (trace w')"

definition trace_extends :: "'s world \<Rightarrow> 's world \<Rightarrow> bool" where
  "trace_extends w w' = (trace w' = trace w @ issued w w')"

definition read_only :: "'s world \<Rightarrow> 's world \<Rightarrow> bool" where
  "read_only w w' = (trace_extends w w' \<and> list_all is_read (issued w w'))"

section \<open>Example models\<close>

text \<open>
  Concrete inputs on which the theorems below are instantiated: the schema of the
  repository's \<open>sanitizeQuery\<close> test, three related models (a review refers to a book, a
  book to its author, and deleting an author cascades to the books), an identifier
  constructor that knows one hexadecimal string, and a store that counts the writes it
  has served and answers every read with no document.
\<close>

definition ExampleSchema :: schema where
  "ExampleSchema =
     \<lparr> model = ''Example'', collection = ''examples'', timestamps = False,
       allowUpsert = False, noInserts = False, noInsertMany = False, noUpdates = False,
       noUpdateMany = False, noDeletes = False, noDeleteMany = False, cascade = None,
       fields' = [(''foo'', FieldSpecs TString None False False None None None None)],
       indexes = None \<rparr>"

definition AuthorSchema :: schema where
  "AuthorSchema =
     \<lparr> model = ''Author'', collection = ''authors'', timestamps = False,
       allowUpsert = False, noInserts = False, noInsertMany = False, noUpdates = False,
       noUpdateMany = False, noDeletes = False, noDeleteMany = False,
       cascade = Some [''Book''],
       fields' = [(''name'', FieldSpecs TString None True False None None None None),
                  (''age'', FieldSpecs TNumber None False False None None None None)],
       indexes = None \<rparr>"

definition BookSchema :: schema where
  "BookSchema =
     \<lparr> model = ''Book'', collection = ''books'', timestamps = False,
       allowUpsert = False, noInserts = False, noInsertMany = False, noUpdates = False,
       noUpdateMany = False, noDeletes = False, noDeleteMany = False, cascade = None,
       fields' = [(''title'', FieldSpecs TString None True False None None None None),
                  (''author'', FieldSpecs TObjectID (Some ''Author'') True False None None None None)],
       indexes = None \<rparr>"

definition ReviewSchema :: schema where
  "ReviewSchema =
     \<lparr> model = ''Review'', collection = ''reviews'', timestamps = False,
       allowUpsert = False, noInserts = False, noInsertMany = False, noUpdates = False,
       noUpdateMany = False, noDeletes = False, noDeleteMany = False, cascade = None,
       fields' = [(''book'', FieldSpecs TObjectID (Some ''Book'') True False None None None None),
                  (''text'', FieldSpecs TString None False False None None None None)],
       indexes = None \<rparr>"


definition exampleModels :: registry where
  "exampleModels =
     Some [(''Author'', Model AuthorSchema), (''Book'', Model BookSchema),
           (''Review'', Model ReviewSchema)]"

definition exampleObjectID :: "string \<Rightarrow> error + ObjectID" where
  "exampleObjectID s =
     (if s = ''5927f337c5178b9665b56b1e'' then Inr (ObjectID 1)
      else Inl (Error ''Argument passed in must be a single String of 12 bytes or a string of 24 hex characters''))"

definition exampleHexString :: "ObjectID \<Rightarrow> string" where
  "exampleHexString i = ''5927f337c5178b9665b56b1e''"

text \<open>
  Modelled from the spec: \<open>sanitizeDocument\<close> is not among the sources. The specification
  says of it that every key absent from the schema's field mapping, other than the
  identifier and timestamp keys, is dropped silently.
\<close>

definition exampleSanitizeDocument :: "schema \<Rightarrow> jsval \<Rightarrow> obj" where
  "exampleSanitizeDocument S doc = filter (\<lambda>(k, v). retained S k) (object_or_empty doc)"

definition exampleEnv :: "nat env" where
  "exampleEnv =
     \<lparr> new_ObjectID = exampleObjectID,
       new_Date = 0,
       bcrypt_hash = (\<lambda>v. ''$2b$10$''),
       sanitizeDocument = exampleSanitizeDocument,
       validateFieldValue = (\<lambda>v fieldSpecs. True),
       models = exampleModels,
       c_aggregate = (\<lambda>c p s. (Inr [], s)),
       c_insertOne = (\<lambda>c doc opts s. (Inr (InsertResult True [JObj doc]), Suc s)),
       c_insertMany = (\<lambda>c ds opts s. (Inr (InsertResult True (map JObj ds)), Suc s)),
       c_updateOne = (\<lambda>c q u opts s. (Inr (WriteResult True (Some 1)), Suc s)),
       c_updateMany = (\<lambda>c q u opts s. (Inr (WriteResult True (Some 1)), Suc s)),
       c_findOneAndUpdate = (\<lambda>c q u opts s. (Inr (FindAndModifyResult True q JUndefined), Suc s)),
       c_deleteOne = (\<lambda>c q opts s. (Inr (WriteResult True (Some 1)), Suc s)),
       c_deleteMany = (\<lambda>c q opts s. (Inr (WriteResult True (Some 1)), Suc s)),
       c_findOneAndDelete = (\<lambda>c q s. (Inr (FindAndModifyResult True q JUndefined), Suc s)),
       c_findOneAndReplace = (\<lambda>c q r opts s. (Inr (FindAndModifyResult True q JUndefined), Suc s)) \<rparr>"

definition emptyWorld :: "nat world" where
  "emptyWorld = \<lparr> store = 0, trace = [] \<rparr>"

section \<open>Properties of sanitizeQuery\<close>

lemma strictLoop_filter:
  "strictLoop S ks ob = filter (\<lambda>(k, v). k \<notin> set ks \<or> retained S k) ob"
proof (induction ks arbitrary: ob)
  case Nil
  then show ?case by simp
next
  case (Cons key rest)
  have del: "filter (\<lambda>(k, v). k \<notin> set rest \<or> retained S k) (delete_prop ob key)
      = filter (\<lambda>(k, v). k \<noteq> key \<and> (k \<notin> set rest \<or> retained S k)) ob"
    by (induction ob) (auto simp: delete_prop_def)
  show ?case
  proof (cases "retained S key")
    case True
    have "filter (\<lambda>(k, v). k \<notin> set (key # rest) \<or> retained S k) ob
        = filter (\<lambda>(k, v). k \<notin> set rest \<or> retained S k) ob"
      using True by (intro filter_cong) auto
    moreover have "strictLoop S (key # rest) ob = strictLoop S rest ob"
      using True by (auto simp: retained_def)
    ultimately show ?thesis using Cons.IH by simp
  next
    case False
    have "filter (\<lambda>(k, v). k \<notin> set (key # rest) \<or> retained S k) ob
        = filter (\<lambda>(k, v). k \<noteq> key \<and> (k \<notin> set rest \<or> retained S k)) ob"
      using False by (intro filter_cong) auto
    moreover have "strictLoop S (key # rest) ob = strictLoop S rest (delete_prop ob key)"
      using False by (auto simp: retained_def)
    ultimately show ?thesis using Cons.IH del by simp
  qed
qed

lemma strictLoop_keys:
  "strictLoop S (keys ob) ob = filter (\<lambda>(k, v). retained S k) ob"
proof -
  have "filter (\<lambda>(k, v). k \<notin> set (keys ob) \<or> retained S k) ob
      = filter (\<lambda>(k, v). retained S k) ob"
    by (intro filter_cong) (force simp: keys_def)+
  then show ?thesis by (simp add: strictLoop_filter)
qed

lemma sanitizeQuery_strict_object:
  "a < length h \<Longrightarrow>
   sanitizeQuery newId S (QObject a) True h
     = (Inr a, h[a := filter (\<lambda>(k, v). retained S k) (h ! a)])"
  by (simp add: sanitizeQuery_def strictLoop_keys)

lemma get_prop_filter:
  "P key \<Longrightarrow> get_prop (filter (\<lambda>(k, v). P k) ob) key = get_prop ob key"
  by (induction ob) (auto simp: get_prop_def)

lemma keys_filter:
  "set (keys (filter (\<lambda>(k, v). P k) ob)) = {k \<in> set (keys ob). P k}"
  by (induction ob) (auto simp: keys_def)

text \<open>
  C5. In strict mode, for an object query, \<open>sanitizeQuery\<close> raises no error and returns
  an object whose keys are exactly the keys of the input that are \<open>_id\<close>, or a timestamp
  key when the schema has timestamps, or declared in the schema's fields; every key that
  is kept has the value it had.
\<close>

theorem sanitizeQuery_strict_keeps_schema_keys:
  assumes "a < length h"
  shows "\<exists>r. sanitizeQuery newId S (QObject a) True h = (Inr a, h[a := r])
           \<and> set (keys r) =
               {k \<in> set (keys (h ! a)).
                  k = ''_id''
                  \<or> (timestamps S \<and> (k = ''createdAt'' \<or> k = ''updatedAt''))
                  \<or> hasOwnProperty (fields' S) k}
           \<and> (\<forall>k \<in> set (keys r). get_prop r k = get_prop (h ! a) k)"
proof -
  let ?r = "filter (\<lambda>(k, v). retained S k) (h ! a)"
  have 1: "sanitizeQuery newId S (QObject a) True h = (Inr a, h[a := ?r])"
    using assms by (rule sanitizeQuery_strict_object)
  have 2: "set (keys ?r) = {k \<in> set (keys (h ! a)). retained S k}"
    by (rule keys_filter)
  have 3: "\<forall>k \<in> set (keys ?r). get_prop ?r k = get_prop (h ! a) k"
    using 2 by (auto intro: get_prop_filter)
  show ?thesis using 1 2 3 unfolding retained_def by blast
qed

theorem sanitizeQuery_strict_keeps_schema_keys_witness:
  "(0::nat) < length [[(''_id'', JOid (ObjectID 1)), (''foo'', JStr ''foo''), (''bar'', JStr ''bar'')]]
   \<and> (\<exists>r. sanitizeQuery exampleObjectID ExampleSchema (QObject 0) True
             [[(''_id'', JOid (ObjectID 1)), (''foo'', JStr ''foo''), (''bar'', JStr ''bar'')]]
           = (Inr 0, [r])
         \<and> set (keys r) = {''_id'', ''foo''}
         \<and> get_prop r ''foo'' = JStr ''foo'')"
proof -
  let ?q = "[(''_id'', JOid (ObjectID 1)), (''foo'', JStr ''foo''), (''bar'', JStr ''bar'')]"
  have len: "(0::nat) < length [?q]" by simp
  obtain r where
    1: "sanitizeQuery exampleObjectID ExampleSchema (QObject 0) True [?q] = (Inr 0, [?q][0 := r])"
    and 2: "set (keys r) =
               {k \<in> set (keys ([?q] ! 0)).
                  k = ''_id''
                  \<or> (timestamps ExampleSchema \<and> (k = ''createdAt'' \<or> k = ''updatedAt''))
                  \<or> hasOwnProperty (fields' ExampleSchema) k}"
    and 3: "\<forall>k \<in> set (keys r). get_prop r k = get_prop ([?q] ! 0) k"
    using sanitizeQuery_strict_keeps_schema_keys [OF len, of exampleObjectID ExampleSchema]
    by (elim exE conjE) (rule that)
  have a: "set (keys r) = {''_id'', ''foo''}"
    unfolding 2 by (auto simp: ExampleSchema_def keys_def hasOwnProperty_def)
  have "get_prop r ''foo'' = get_prop ([?q] ! 0) ''foo''"
    using 3 a by simp
  then have b: "get_prop r ''foo'' = JStr ''foo''"
    by (simp add: get_prop_def)
  have c: "sanitizeQuery exampleObjectID ExampleSchema (QObject 0) True [?q] = (Inr 0, [r])"
    using 1 by simp
  show ?thesis using len a b c by blast
qed

text \<open>
  C6. For an identifier, \<open>sanitizeQuery\<close> returns a new object with the single key \<open>_id\<close>
  bound to it; for the string form of an identifier, which the driver's constructor
  reads back as that identifier, it returns the same filter.
\<close>

theorem sanitizeQuery_identifier:
  assumes "newId (toHexString i) = Inr i"
  shows "sanitizeQuery newId S (QObjectID i) strictMode h = (Inr (length h), h @ [[(''_id'', JOid i)]])
       \<and> sanitizeQuery newId S (QString (toHexString i)) strictMode h
           = sanitizeQuery newId S (QObjectID i) strictMode h
       \<and> sanitizeQuery_value newId S (QObjectID i) strictMode = Inr [(''_id'', JOid i)]
       \<and> sanitizeQuery_value newId S (QString (toHexString i)) strictMode = Inr [(''_id'', JOid i)]"
  using assms
  by (simp add: sanitizeQuery_def sanitizeQuery_value_def load_query_def new_object_def)

theorem sanitizeQuery_identifier_witness:
  "exampleObjectID (exampleHexString (ObjectID 1)) = Inr (ObjectID 1)
   \<and> sanitizeQuery exampleObjectID ExampleSchema (QObjectID (ObjectID 1)) True []
       = (Inr 0, [[(''_id'', JOid (ObjectID 1))]])
   \<and> sanitizeQuery exampleObjectID ExampleSchema (QString ''5927f337c5178b9665b56b1e'') True []
       = (Inr 0, [[(''_id'', JOid (ObjectID 1))]])"
proof -
  have h: "exampleObjectID (exampleHexString (ObjectID 1)) = Inr (ObjectID 1)"
    by (simp add: exampleObjectID_def exampleHexString_def)
  show ?thesis
    using h sanitizeQuery_identifier
            [of exampleObjectID exampleHexString "ObjectID 1" ExampleSchema True "[]"]
    by (simp add: exampleHexString_def)
qed

text \<open>
  C9. In strict mode \<open>sanitizeQuery\<close> returns the reference it was given and allocates
  nothing: the object at that reference has lost, in place, every key that is neither
  \<open>_id\<close>, nor a timestamp key of a schema with timestamps, nor a field of the schema; no
  other object has changed.
\<close>

theorem sanitizeQuery_strict_in_place:
  assumes "a < length h"
  shows "\<exists>h'. sanitizeQuery newId S (QObject a) True h = (Inr a, h')
           \<and> length h' = length h
           \<and> (\<forall>b. b \<noteq> a \<longrightarrow> h' ! b = h ! b)
           \<and> h' ! a = filter (\<lambda>(k, v). retained S k) (h ! a)
           \<and> (\<forall>k \<in> set (keys (h' ! a)).
                 k = ''_id''
                 \<or> (timestamps S \<and> (k = ''createdAt'' \<or> k = ''updatedAt''))
                 \<or> hasOwnProperty (fields' S) k)"
proof -
  let ?r = "filter (\<lambda>(k, v). retained S k) (h ! a)"
  let ?h' = "h[a := ?r]"
  have 1: "sanitizeQuery newId S (QObject a) True h = (Inr a, ?h')"
    using assms by (rule sanitizeQuery_strict_object)
  have 2: "length ?h' = length h"
    by simp
  have 3: "\<forall>b. b \<noteq> a \<longrightarrow> ?h' ! b = h ! b"
    by simp
  have 4: "?h' ! a = ?r"
    using assms by simp
  have "\<forall>k \<in> set (keys ?r). retained S k"
    by (simp add: keys_filter)
  then have "\<forall>k \<in> set (keys (?h' ! a)). retained S k"
    by (simp only: 4)
  then have 5: "\<forall>k \<in> set (keys (?h' ! a)).
                 k = ''_id''
                 \<or> (timestamps S \<and> (k = ''createdAt'' \<or> k = ''updatedAt''))
                 \<or> hasOwnProperty (fields' S) k"
    unfolding retained_def .
  show ?thesis
    using 1 2 3 4 5 by (intro exI [of _ ?h'] conjI)
qed

theorem sanitizeQuery_strict_in_place_witness:
  "(1::nat) < length [[(''bar'', JNum 0)], [(''foo'', JStr ''x''), (''bar'', JStr ''y'')]]
   \<and> (\<exists>h'. sanitizeQuery exampleObjectID ExampleSchema (QObject 1) True
                [[(''bar'', JNum 0)], [(''foo'', JStr ''x''), (''bar'', JStr ''y'')]]
              = (Inr 1, h')
            \<and> length h' = 2
            \<and> h' ! 0 = [(''bar'', JNum 0)]
            \<and> h' ! 1 = [(''foo'', JStr ''x'')])"
proof -
  let ?h = "[[(''bar'', JNum 0)], [(''foo'', JStr ''x''), (''bar'', JStr ''y'')]]"
  have len: "(1::nat) < length ?h" by simp
  obtain h' where r: "sanitizeQuery exampleObjectID ExampleSchema (QObject 1) True ?h = (Inr 1, h')"
    and l: "length h' = length ?h"
    and o: "\<forall>b. b \<noteq> 1 \<longrightarrow> h' ! b = ?h ! b"
    and s: "h' ! 1 = filter (\<lambda>(k, v). retained ExampleSchema k) (?h ! 1)"
    using sanitizeQuery_strict_in_place [OF len, of exampleObjectID ExampleSchema]
    by (elim exE conjE) (rule that)
  have a: "h' ! 0 = [(''bar'', JNum 0)]" using o by simp
  have b: "h' ! 1 = [(''foo'', JStr ''x'')]"
    using s by (simp add: retained_def ExampleSchema_def hasOwnProperty_def keys_def)
  have c: "length h' = 2" using l by simp
  show ?thesis using len r a b c by blast
qed


section \<open>Properties of the aggregation factories\<close>

lemma sanitizeQuery_value_object:
  "sanitizeQuery_value newId S (QObject q) False = Inr q"
  by (simp add: sanitizeQuery_value_def load_query_def sanitizeQuery_def)

lemma set_prop_fresh:
  "key \<notin> set (keys ob) \<Longrightarrow> set_prop ob key v = ob @ [(key, v)]"
  by (simp add: set_prop_def hasOwnProperty_def)

lemma prefixLoop_appends:
  "distinct ks \<Longrightarrow> set ks \<subseteq> set (keys sanitized) \<Longrightarrow>
   \<forall>k \<in> set ks. p @ k \<notin> set (keys acc) \<Longrightarrow>
   prefixLoop p sanitized ks acc = acc @ map (\<lambda>k. (p @ k, get_prop sanitized k)) ks"
proof (induction ks arbitrary: acc)
  case Nil
  then show ?case by simp
next
  case (Cons key rest)
  let ?acc = "acc @ [(p @ key, get_prop sanitized key)]"
  have own: "hasOwnProperty sanitized key"
    using Cons.prems(2) by (simp add: hasOwnProperty_def)
  have step: "set_prop acc (p @ key) (get_prop sanitized key) = ?acc"
    using Cons.prems(3) by (simp add: set_prop_fresh)
  have fresh: "\<forall>k \<in> set rest. p @ k \<notin> set (keys ?acc)"
    using Cons.prems(1,3) by (auto simp: keys_def)
  have "prefixLoop p sanitized rest ?acc
          = ?acc @ map (\<lambda>k. (p @ k, get_prop sanitized k)) rest"
    using Cons.prems(1,2) fresh by (intro Cons.IH) auto
  then show ?case using own step by simp
qed

lemma get_prop_distinct:
  "distinct (keys q) \<Longrightarrow> (k, v) \<in> set q \<Longrightarrow> get_prop q k = v"
  by (simp add: get_prop_def keys_def)

lemma map_keys_get_prop:
  "distinct (keys q) \<Longrightarrow>
   map (\<lambda>k. (p @ k, get_prop q k)) (keys q) = map (\<lambda>(k, v). (p @ k, v)) q"
proof -
  assume d: "distinct (keys q)"
  have "map (\<lambda>k. (p @ k, get_prop q k)) (keys q)
          = map (\<lambda>kv. (p @ fst kv, get_prop q (fst kv))) q"
    by (simp add: keys_def comp_def)
  also have "\<dots> = map (\<lambda>(k, v). (p @ k, v)) q"
    using d by (intro map_cong) (auto simp: get_prop_distinct)
  finally show ?thesis .
qed

lemma matchStageFactory_object_eq:
  assumes "wf_obj q"
  shows "matchStageFactory newId S (QObject q) p = Inr [Match (map (\<lambda>(k, v). (p @ k, v)) q)]"
proof -
  have d: "distinct (keys q)" using assms by (simp add: wf_obj_def)
  have "prefixLoop p q (keys q) [] = [] @ map (\<lambda>k. (p @ k, get_prop q k)) (keys q)"
    using d by (intro prefixLoop_appends) (auto simp: keys_def)
  then have "prefixLoop p q (keys q) [] = map (\<lambda>(k, v). (p @ k, v)) q"
    using d by (simp add: map_keys_get_prop)
  then show ?thesis
    by (simp add: matchStageFactory_def bindE_def sanitizeQuery_value_object)
qed

text \<open>
  C7. For an object query, \<open>matchStageFactory\<close> sanitizes in non-strict mode, so that every
  key of the query survives whether the schema declares it or not, and returns exactly
  one \<open>$match\<close> stage whose keys are the keys of the query with the prefix put in front,
  each bound to the value the query gave it.
\<close>

theorem matchStageFactory_prefixes_every_key:
  assumes "wf_obj q"
  shows "\<exists>m. matchStageFactory newId S (QObject q) p = Inr [Match m]
           \<and> m = map (\<lambda>(k, v). (p @ k, v)) q
           \<and> keys m = map (\<lambda>k. p @ k) (keys q)
           \<and> (\<forall>k \<in> set (keys q). get_prop m (p @ k) = get_prop q k)"
proof -
  let ?m = "map (\<lambda>(k, v). (p @ k, v)) q"
  have d: "distinct (keys q)" using assms by (simp add: wf_obj_def)
  have 1: "matchStageFactory newId S (QObject q) p = Inr [Match ?m]"
    using assms by (rule matchStageFactory_object_eq)
  have 2: "keys ?m = map (\<lambda>k. p @ k) (keys q)"
    by (simp add: keys_def comp_def case_prod_beta)
  have inj: "inj_on (\<lambda>k. p @ k) (set (keys q))"
    by (simp add: inj_on_def)
  have dm: "distinct (keys ?m)"
    unfolding 2 using d inj by (simp add: distinct_map)
  have 3: "\<forall>k \<in> set (keys q). get_prop ?m (p @ k) = get_prop q k"
  proof
    fix k assume "k \<in> set (keys q)"
    then obtain v where kv: "(k, v) \<in> set q" by (auto simp: keys_def)
    then have "(p @ k, v) \<in> set ?m" by force
    then have "get_prop ?m (p @ k) = v" using dm by (rule get_prop_distinct [rotated])
    moreover have "get_prop q k = v" using d kv by (rule get_prop_distinct)
    ultimately show "get_prop ?m (p @ k) = get_prop q k" by simp
  qed
  show ?thesis using 1 2 3 by blast
qed

theorem matchStageFactory_prefixes_every_key_witness:
  "wf_obj [(''_id'', JOid (ObjectID 1)), (''bar'', JNum 34)]
   \<and> matchStageFactory exampleObjectID ExampleSchema
         (QObject [(''_id'', JOid (ObjectID 1)), (''bar'', JNum 34)]) ''foo.''
       = Inr [Match [(''foo._id'', JOid (ObjectID 1)), (''foo.bar'', JNum 34)]]"
proof -
  have w: "wf_obj [(''_id'', JOid (ObjectID 1)), (''bar'', JNum 34)]"
    by (simp add: wf_obj_def keys_def)
  obtain m where
    1: "matchStageFactory exampleObjectID ExampleSchema
          (QObject [(''_id'', JOid (ObjectID 1)), (''bar'', JNum 34)]) ''foo.'' = Inr [Match m]"
    and 2: "m = map (\<lambda>(k, v). (''foo.'' @ k, v)) [(''_id'', JOid (ObjectID 1)), (''bar'', JNum 34)]"
    using matchStageFactory_prefixes_every_key [OF w, of exampleObjectID ExampleSchema "''foo.''"]
    by (elim exE conjE) (rule that)
  show ?thesis using w 1 2 by simp
qed

text \<open>
  C3. When field \<open>a\<close> of the schema refers to a registered model, and field \<open>b\<close> of that
  model's schema refers to a registered model, the specs \<open>{a: {b: true}}\<close> give exactly
  four stages: a \<open>$lookup\<close> and a \<open>$unwind\<close> for \<open>a\<close>, then a \<open>$lookup\<close> and a \<open>$unwind\<close> for \<open>b\<close>
  whose local and output paths begin with the output path of \<open>a\<close> followed by a dot. Both
  \<open>$unwind\<close> stages preserve null and empty arrays.
\<close>

theorem lookupStageFactory_depth_two:
  assumes "map_of (fields' S) a = Some fa" and "ref fa = Some ra" and "ra \<noteq> []"
    and "getModel R ra = Inr Ma"
    and "map_of (fields' (schema Ma)) b = Some fb" and "ref fb = Some rb" and "rb \<noteq> []"
    and "getModel R rb = Inr Mb"
  shows "lookupStageFactory R S [(a, LSpecs [(b, LBool True)])] fromPrefix toPrefix =
           Inr [Lookup (collection (schema Ma)) (fromPrefix @ a) ''_id'' (toPrefix @ a),
                Unwind (''$'' @ toPrefix @ a) True,
                Lookup (collection (schema Mb)) ((toPrefix @ a @ ''.'') @ b) ''_id''
                  ((toPrefix @ a @ ''.'') @ b),
                Unwind (''$'' @ (toPrefix @ a @ ''.'') @ b) True]"
proof -
  have ra: "fieldRef S a = Some ra"
    using assms(1-3) by (simp add: fieldRef_def)
  have rb: "fieldRef (schema Ma) b = Some rb"
    using assms(5-7) by (simp add: fieldRef_def)
  have inner: "lookupStageFactory R (schema Ma) [(b, LBool True)] (toPrefix @ a @ ''.'') (toPrefix @ a @ ''.'')
      = Inr [Lookup (collection (schema Mb)) ((toPrefix @ a @ ''.'') @ b) ''_id''
               ((toPrefix @ a @ ''.'') @ b),
             Unwind (''$'' @ (toPrefix @ a @ ''.'') @ b) True]"
    using rb assms(8) by (simp add: bindE_def)
  show ?thesis
    using ra assms(4) inner by (simp add: bindE_def)
qed

theorem lookupStageFactory_depth_two_witness:
  "map_of (fields' ReviewSchema) ''book''
       = Some (FieldSpecs TObjectID (Some ''Book'') True False None None None None)
   \<and> getModel exampleModels ''Book'' = Inr (Model BookSchema)
   \<and> map_of (fields' BookSchema) ''author''
       = Some (FieldSpecs TObjectID (Some ''Author'') True False None None None None)
   \<and> getModel exampleModels ''Author'' = Inr (Model AuthorSchema)
   \<and> lookupStageFactory exampleModels ReviewSchema
         [(''book'', LSpecs [(''author'', LBool True)])] [] []
       = Inr [Lookup ''books'' ''book'' ''_id'' ''book'',
              Unwind ''$book'' True,
              Lookup ''authors'' ''book.author'' ''_id'' ''book.author'',
              Unwind ''$book.author'' True]"
proof -
  have 1: "map_of (fields' ReviewSchema) ''book''
       = Some (FieldSpecs TObjectID (Some ''Book'') True False None None None None)"
    by (simp add: ReviewSchema_def)
  have 2: "getModel exampleModels ''Book'' = Inr (Model BookSchema)"
    by (simp add: getModel_def exampleModels_def)
  have 3: "map_of (fields' (schema (Model BookSchema))) ''author''
       = Some (FieldSpecs TObjectID (Some ''Author'') True False None None None None)"
    by (simp add: BookSchema_def Model_def)
  have 4: "getModel exampleModels ''Author'' = Inr (Model AuthorSchema)"
    by (simp add: getModel_def exampleModels_def)
  have "lookupStageFactory exampleModels ReviewSchema
         [(''book'', LSpecs [(''author'', LBool True)])] [] []
       = Inr [Lookup (collection (schema (Model BookSchema))) ([] @ ''book'') ''_id'' ([] @ ''book''),
              Unwind (''$'' @ [] @ ''book'') True,
              Lookup (collection (schema (Model AuthorSchema))) (([] @ ''book'' @ ''.'') @ ''author'')
                ''_id'' (([] @ ''book'' @ ''.'') @ ''author''),
              Unwind (''$'' @ ([] @ ''book'' @ ''.'') @ ''author'') True]"
    by (rule lookupStageFactory_depth_two [OF 1 _ _ 2 3 _ _ 4]) simp_all
  then have 5: "lookupStageFactory exampleModels ReviewSchema
         [(''book'', LSpecs [(''author'', LBool True)])] [] []
       = Inr [Lookup ''books'' ''book'' ''_id'' ''book'',
              Unwind ''$book'' True,
              Lookup ''authors'' ''book.author'' ''_id'' ''book.author'',
              Unwind ''$book.author'' True]"
    by (simp add: Model_def BookSchema_def AuthorSchema_def)
  have b3: "map_of (fields' BookSchema) ''author''
       = Some (FieldSpecs TObjectID (Some ''Author'') True False None None None None)"
    using 3 by (simp add: Model_def)
  show ?thesis using 1 2 b3 4 5 by blast
qed





section \<open>Properties of the engine\<close>

text \<open>
  C10. \<open>validateDocument\<close> ends in an error, whatever the schema and the options, when
  the document is not a plain object and when it is the object with no key; the store is
  not touched.
\<close>

theorem validateDocument_rejects_non_object_and_empty:
  "((\<forall>d. doc \<noteq> JObj d) \<longrightarrow>
      validateDocument E M doc opts w = (Inl (Error ''Invalid document provided''), w))
   \<and> validateDocument E M (JObj []) opts w
       = (Inl (Error ''Empty objects are not permitted''), w)"
  by (cases doc) (simp_all add: validateDocument_def throwIO_def)

theorem validateDocument_rejects_non_object_and_empty_witness:
  "(\<forall>d. JArr [JNum 1] \<noteq> JObj d)
   \<and> validateDocument exampleEnv (Model ExampleSchema) (JArr [JNum 1]) noOptions emptyWorld
       = (Inl (Error ''Invalid document provided''), emptyWorld)
   \<and> validateDocument exampleEnv (Model ExampleSchema) (JObj []) noOptions emptyWorld
       = (Inl (Error ''Empty objects are not permitted''), emptyWorld)"
  using validateDocument_rejects_non_object_and_empty
          [of "JArr [JNum 1]" exampleEnv "Model ExampleSchema" noOptions emptyWorld]
  by simp






section \<open>The trace of store calls\<close>

lemma trace_extendsI: "trace w' = trace w @ cs \<Longrightarrow> trace_extends w w'"
  by (simp add: trace_extends_def issued_def)

lemma issued_eq: "trace w' = trace w @ cs \<Longrightarrow> issued w w' = cs"
  by (simp add: issued_def)

lemma trace_extends_trans:
  assumes "trace_extends w w1" and "trace_extends w1 w2"
  shows "trace_extends w w2" and "issued w w2 = issued w w1 @ issued w1 w2"
proof -
  have "trace w2 = trace w @ (issued w w1 @ issued w1 w2)"
    using assms by (simp add: trace_extends_def)
  then show "trace_extends w w2" and "issued w w2 = issued w w1 @ issued w1 w2"
    by (rule trace_extendsI, rule issued_eq)
qed

lemma trace_extends_refl: "trace_extends w w"
  by (simp add: trace_extends_def issued_def)

lemma issued_refl: "issued w w = []"
  by (simp add: issued_def)

lemma read_only_refl: "read_only w w"
  by (simp add: read_only_def trace_extends_refl issued_refl)

lemma read_only_trans: "read_only w w1 \<Longrightarrow> read_only w1 w2 \<Longrightarrow> read_only w w2"
  unfolding read_only_def
  using trace_extends_trans [of w w1 w2] by simp

lemma read_only_extends: "read_only w w' \<Longrightarrow> trace_extends w w'"
  by (simp add: read_only_def)

lemma invoke_trace:
  "invoke c f w = (r, w') \<Longrightarrow> trace w' = trace w @ [c]"
  by (auto simp: invoke_def split: prod.splits)

lemma invoke_extends:
  "invoke c f w = (r, w') \<Longrightarrow> trace_extends w w' \<and> issued w w' = [c]"
  using invoke_trace [of c f w r w'] by (simp add: trace_extendsI issued_eq)

lemma invoke_read_only:
  "invoke (Aggregate c p) f w = (r, w') \<Longrightarrow> read_only w w'"
  using invoke_extends [of "Aggregate c p" f w r w']
  by (simp add: read_only_def is_read_def)

lemma liftE_world: "liftE m w = (r, w') \<Longrightarrow> w' = w \<and> r = m"
  by (simp add: liftE_def)


lemma throwIO_world: "throwIO e w = (r, w') \<Longrightarrow> w' = w \<and> r = Inl e"
  by (simp add: throwIO_def)

lemma bindIO_E:
  assumes "bindIO m f w = (r, w')"
  obtains (failed) e where "m w = (Inl e, w')" and "r = Inl e"
        | (passed) x w1 where "m w = (Inr x, w1)" and "f x w1 = (r, w')"
  using assms by (auto simp: bindIO_def split: prod.splits sum.splits)

lemma bindIO_read_only:
  assumes "bindIO m f w = (r, w')"
    and "\<And>r1 w1. m w = (r1, w1) \<Longrightarrow> read_only w w1"
    and "\<And>x w1. m w = (Inr x, w1) \<Longrightarrow> f x w1 = (r, w') \<Longrightarrow> read_only w1 w'"
  shows "read_only w w'"
  using assms(1)
proof (cases rule: bindIO_E)
  case (failed e)
  then show ?thesis using assms(2) by simp
next
  case (passed x w1)
  then show ?thesis using assms(2,3) read_only_trans by blast
qed



lemma findMany_read_only: "findMany E M q w = (r, w') \<Longrightarrow> read_only w w'"
  unfolding findMany_def
  by (erule bindIO_E)
     (auto dest!: liftE_world dest: invoke_read_only simp: read_only_refl)






section \<open>Insertion of a document that lacks a required field\<close>















section \<open>Cascading deletion\<close>

lemma issued_mono:
  assumes "trace_extends w w1" and "trace_extends w1 w2"
    and "c \<in> set (issued w w1) \<or> c \<in> set (issued w1 w2)"
  shows "c \<in> set (issued w w2)"
  using trace_extends_trans(2) [OF assms(1,2)] assms(3) by auto

lemma sanitizeQuery_value_strict:
  "sanitizeQuery_value newId S (QObject q) True = Inr (filter (\<lambda>(k, v). retained S k) q)"
  by (simp add: sanitizeQuery_value_def load_query_def sanitizeQuery_strict_object)

lemma beforeDelete_reference:
  assumes "hasOwnProperty (fields' (schema B)) key"
    and "willDeleteDocument B (QObject [(key, v)]) = Inr (QObject [(key, v)])"
  shows "beforeDelete E B (QObject [(key, v)]) opts = Inr [(key, v)]"
  using assms
  by (simp add: beforeDelete_def bindE_def sanitizeQuery_value_strict retained_def)

lemma deleteMany_direct:
  assumes "\<not> returnDocs opts" and "deleteMany E B q opts w = (r, w')"
  shows "(w' = w \<and> isl r)
         \<or> (\<exists>flt. beforeDelete E B q opts = Inr flt
                \<and> trace w' = trace w @ [DeleteMany (getCollection B) (JObj flt) opts])"
proof (cases "noDeletes (schema B) \<or> noDeleteMany (schema B)")
  case True
  then show ?thesis using assms(2) by (auto simp: deleteMany.simps)
next
  case False
  show ?thesis
  proof (cases "beforeDelete E B q opts")
    case (Inl e)
    then show ?thesis using assms(2) False by (auto simp: deleteMany.simps)
  next
    case (Inr flt)
    obtain r1 w1 where i: "invoke (DeleteMany (getCollection B) (JObj flt) opts)
                             (c_deleteMany E (getCollection B) (JObj flt) opts) w = (r1, w1)"
      by (cases "invoke (DeleteMany (getCollection B) (JObj flt) opts)
                   (c_deleteMany E (getCollection B) (JObj flt) opts) w")
    have t: "trace w1 = trace w @ [DeleteMany (getCollection B) (JObj flt) opts]"
      using i by (rule invoke_trace)
    have "w' = w1"
      using assms False Inr i
      by (auto simp: deleteMany.simps liftE_def
            split: sum.splits writeResult.splits if_splits option.splits prod.splits)
    then show ?thesis using t Inr by simp
  qed
qed

lemma deleteMany_direct_extends:
  assumes "\<not> returnDocs opts" and "deleteMany E B q opts w = (r, w')"
  shows "trace_extends w w'"
  using deleteMany_direct [OF assms]
  by (auto simp: trace_extends_refl intro: trace_extendsI)

lemma deleteMany_direct_issues:
  assumes "\<not> returnDocs opts" and "deleteMany E B q opts w = (Inr v, w')"
    and "beforeDelete E B q opts = Inr flt"
  shows "issued w w' = [DeleteMany (getCollection B) (JObj flt) opts]"
  using deleteMany_direct [OF assms(1,2)] assms(3)
  by (auto simp: issued_eq)

lemma cascadeFields_extends:
  "cascadeFields E A B fs X w = (r, w') \<Longrightarrow> trace_extends w w'"
proof (induction fs arbitrary: w)
  case Nil
  then show ?case by (simp add: trace_extends_refl)
next
  case (Cons kf rest)
  obtain key field where kf: "kf = (key, field)" by (cases kf)
  show ?case
  proof (cases "ref field = Some (model (schema A))")
    case False
    then show ?thesis using Cons kf by simp
  next
    case True
    obtain r1 w1 where d: "deleteMany E B (QObject [(key, JOid X)]) noOptions w = (r1, w1)"
      by (cases "deleteMany E B (QObject [(key, JOid X)]) noOptions w")
    have e1: "trace_extends w w1"
      using d by (intro deleteMany_direct_extends [of noOptions]) (simp_all add: noOptions_def)
    show ?thesis
    proof (cases r1)
      case (Inl e)
      then show ?thesis using Cons.prems kf True d e1 by simp
    next
      case (Inr v)
      then have "cascadeFields E A B rest X w1 = (r, w')"
        using Cons.prems kf True d by simp
      then have "trace_extends w1 w'" by (rule Cons.IH)
      then show ?thesis using e1 trace_extends_trans(1) by blast
    qed
  qed
qed

lemma cascadeFields_issues:
  assumes "cascadeFields E A B fs X w = (Inr u, w')"
    and "(key, field) \<in> set fs" and "ref field = Some (model (schema A))"
    and "hasOwnProperty (fields' (schema B)) key"
    and "willDeleteDocument B (QObject [(key, JOid X)]) = Inr (QObject [(key, JOid X)])"
  shows "DeleteMany (getCollection B) (JObj [(key, JOid X)]) noOptions \<in> set (issued w w')"
  using assms(1,2)
proof (induction fs arbitrary: w)
  case Nil
  then show ?case by simp
next
  case (Cons kf rest)
  obtain k f where kf: "kf = (k, f)" by (cases kf)
  let ?c = "DeleteMany (getCollection B) (JObj [(key, JOid X)]) noOptions"
  show ?case
  proof (cases "ref f = Some (model (schema A))")
    case False
    then have "(key, field) \<in> set rest" using Cons.prems(2) kf assms(3) by auto
    moreover have "cascadeFields E A B rest X w = (Inr u, w')"
      using Cons.prems(1) kf False by simp
    ultimately show ?thesis by (rule Cons.IH [rotated])
  next
    case True
    obtain r1 w1 where d: "deleteMany E B (QObject [(k, JOid X)]) noOptions w = (r1, w1)"
      by (cases "deleteMany E B (QObject [(k, JOid X)]) noOptions w")
    have nr: "\<not> returnDocs noOptions" by (simp add: noOptions_def)
    have e1: "trace_extends w w1" using nr d by (rule deleteMany_direct_extends)
    obtain v where v: "r1 = Inr v" and rest: "cascadeFields E A B rest X w1 = (Inr u, w')"
      using Cons.prems(1) kf True d by (cases r1) auto
    have e2: "trace_extends w1 w'" using rest by (rule cascadeFields_extends)
    show ?thesis
    proof (cases "(key, field) = (k, f)")
      case True
      have "beforeDelete E B (QObject [(key, JOid X)]) noOptions = Inr [(key, JOid X)]"
        using assms(4,5) by (rule beforeDelete_reference)
      then have "issued w w1 = [?c]"
        using nr d v True by (intro deleteMany_direct_issues) auto
      then show ?thesis using e1 e2 by (intro issued_mono [of w w1 w']) auto
    next
      case False
      then have "(key, field) \<in> set rest" using Cons.prems(2) kf by auto
      then have "?c \<in> set (issued w1 w')" using rest by (intro Cons.IH)
      then show ?thesis using e1 e2 by (intro issued_mono [of w w1 w']) auto
    qed
  qed
qed

lemma cascadeModels_extends:
  "cascadeModels E A names X w = (r, w') \<Longrightarrow> trace_extends w w'"
proof (induction names arbitrary: w)
  case Nil
  then show ?case by (simp add: trace_extends_refl)
next
  case (Cons name rest)
  show ?case
  proof (cases "getModel (models E) name")
    case (Inl e)
    then show ?thesis using Cons.prems by (simp add: trace_extends_refl)
  next
    case (Inr B)
    obtain r1 w1 where f: "cascadeFields E A B (fields' (schema B)) X w = (r1, w1)"
      by (cases "cascadeFields E A B (fields' (schema B)) X w")
    have e1: "trace_extends w w1" using f by (rule cascadeFields_extends)
    show ?thesis
    proof (cases r1)
      case (Inl e)
      then show ?thesis using Cons.prems \<open>getModel (models E) name = Inr B\<close> f e1 by simp
    next
      case (Inr u)
      then have "cascadeModels E A rest X w1 = (r, w')"
        using Cons.prems \<open>getModel (models E) name = Inr B\<close> f by simp
      then have "trace_extends w1 w'" by (rule Cons.IH)
      then show ?thesis using e1 trace_extends_trans(1) by blast
    qed
  qed
qed

lemma cascadeModels_issues:
  assumes "cascadeModels E A names X w = (Inr u, w')"
    and "name \<in> set names" and "getModel (models E) name = Inr B"
    and "(key, field) \<in> set (fields' (schema B))" and "ref field = Some (model (schema A))"
    and "willDeleteDocument B (QObject [(key, JOid X)]) = Inr (QObject [(key, JOid X)])"
  shows "DeleteMany (getCollection B) (JObj [(key, JOid X)]) noOptions \<in> set (issued w w')"
  using assms(1,2)
proof (induction names arbitrary: w)
  case Nil
  then show ?case by simp
next
  case (Cons n rest)
  let ?c = "DeleteMany (getCollection B) (JObj [(key, JOid X)]) noOptions"
  obtain N where N: "getModel (models E) n = Inr N"
    using Cons.prems(1) by (cases "getModel (models E) n") auto
  obtain r1 w1 where f: "cascadeFields E A N (fields' (schema N)) X w = (r1, w1)"
    by (cases "cascadeFields E A N (fields' (schema N)) X w")
  obtain u1 where u1: "r1 = Inr u1" and rest: "cascadeModels E A rest X w1 = (Inr u, w')"
    using Cons.prems(1) N f by (cases r1) auto
  have e1: "trace_extends w w1" using f by (rule cascadeFields_extends)
  have e2: "trace_extends w1 w'" using rest by (rule cascadeModels_extends)
  have own: "hasOwnProperty (fields' (schema B)) key"
    using assms(4) by (force simp: hasOwnProperty_def keys_def)
  show ?case
  proof (cases "n = name")
    case True
    then have "N = B" using N assms(3) by simp
    then have "?c \<in> set (issued w w1)"
      using f u1 assms(4,5,6) own by (intro cascadeFields_issues [of E A B _ X w _ w1]) auto
    then show ?thesis using e1 e2 by (intro issued_mono [of w w1 w']) auto
  next
    case False
    then have "name \<in> set rest" using Cons.prems(2) by simp
    then have "?c \<in> set (issued w1 w')" using rest by (intro Cons.IH)
    then show ?thesis using e1 e2 by (intro issued_mono [of w w1 w']) auto
  qed
qed

lemma cascadeDelete_extends:
  "cascadeDelete E A X w = (r, w') \<Longrightarrow> trace_extends w w'"
  by (cases "cascade (schema A)") (auto simp: trace_extends_refl dest: cascadeModels_extends)

lemma cascadeDelete_issues:
  assumes "cascadeDelete E A X w = (Inr u, w')"
    and "cascade (schema A) = Some names"
    and "name \<in> set names" and "getModel (models E) name = Inr B"
    and "(key, field) \<in> set (fields' (schema B))" and "ref field = Some (model (schema A))"
    and "willDeleteDocument B (QObject [(key, JOid X)]) = Inr (QObject [(key, JOid X)])"
  shows "DeleteMany (getCollection B) (JObj [(key, JOid X)]) noOptions \<in> set (issued w w')"
proof -
  have "cascadeModels E A names X w = (Inr u, w')"
    using assms(1,2) by simp
  then show ?thesis using assms(3-7) by (rule cascadeModels_issues)
qed


lemma afterDeleteLoop_extends:
  "afterDeleteLoop E A ds w = (r, w') \<Longrightarrow> trace_extends w w'"
proof (induction ds arbitrary: w)
  case Nil
  then show ?case by (simp add: trace_extends_refl)
next
  case (Cons doc rest)
  show ?case
  proof (cases "\<exists>X. member doc ''_id'' = JOid X")
    case False
    then have "afterDeleteLoop E A rest w = (r, w')"
      using Cons.prems by (cases "member doc ''_id''") auto
    then show ?thesis by (rule Cons.IH)
  next
    case True
    then obtain X where X: "member doc ''_id'' = JOid X" by blast
    obtain r1 w1 where c: "cascadeDelete E A X w = (r1, w1)"
      by (cases "cascadeDelete E A X w")
    have e1: "trace_extends w w1" using c by (rule cascadeDelete_extends)
    show ?thesis
    proof (cases r1)
      case (Inl e)
      then show ?thesis using Cons.prems X c e1 by simp
    next
      case (Inr u)
      then have "afterDeleteLoop E A rest w1 = (r, w')"
        using Cons.prems X c by simp
      then have "trace_extends w1 w'" by (rule Cons.IH)
      then show ?thesis using e1 trace_extends_trans(1) by blast
    qed
  qed
qed

lemma afterDeleteLoop_issues:
  assumes "afterDeleteLoop E A ds w = (Inr u, w')"
    and "doc \<in> set ds" and "member doc ''_id'' = JOid X"
    and "cascade (schema A) = Some names"
    and "name \<in> set names" and "getModel (models E) name = Inr B"
    and "(key, field) \<in> set (fields' (schema B))" and "ref field = Some (model (schema A))"
    and "willDeleteDocument B (QObject [(key, JOid X)]) = Inr (QObject [(key, JOid X)])"
  shows "DeleteMany (getCollection B) (JObj [(key, JOid X)]) noOptions \<in> set (issued w w')"
  using assms(1,2)
proof (induction ds arbitrary: w)
  case Nil
  then show ?case by simp
next
  case (Cons d rest)
  let ?c = "DeleteMany (getCollection B) (JObj [(key, JOid X)]) noOptions"
  show ?case
  proof (cases "\<exists>Y. member d ''_id'' = JOid Y")
    case False
    then have l: "afterDeleteLoop E A rest w = (Inr u, w')"
      using Cons.prems(1) by (cases "member d ''_id''") auto
    have "d \<noteq> doc" using False assms(3) by auto
    then have "doc \<in> set rest" using Cons.prems(2) by auto
    then show ?thesis using l by (intro Cons.IH)
  next
    case True
    then obtain Y where Y: "member d ''_id'' = JOid Y" by blast
    obtain r1 w1 where c: "cascadeDelete E A Y w = (r1, w1)"
      by (cases "cascadeDelete E A Y w")
    obtain u1 where u1: "r1 = Inr u1" and rest: "afterDeleteLoop E A rest w1 = (Inr u, w')"
      using Cons.prems(1) Y c by (cases r1) auto
    have e1: "trace_extends w w1" using c by (rule cascadeDelete_extends)
    have e2: "trace_extends w1 w'" using rest by (rule afterDeleteLoop_extends)
    show ?thesis
    proof (cases "d = doc")
      case True
      then have "Y = X" using Y assms(3) by simp
      then have "cascadeDelete E A X w = (Inr u1, w1)" using c u1 by simp
      then have "?c \<in> set (issued w w1)"
        using assms(4-9) by (rule cascadeDelete_issues)
      then show ?thesis using e1 e2 by (intro issued_mono [of w w1 w']) auto
    next
      case False
      then have "doc \<in> set rest" using Cons.prems(2) by auto
      then have "?c \<in> set (issued w1 w')" using rest by (intro Cons.IH)
      then show ?thesis using e1 e2 by (intro issued_mono [of w w1 w']) auto
    qed
  qed
qed

lemma afterDelete_issues:
  assumes "afterDelete E A dd w = (Inr u, w')"
    and "doc \<in> set (documents dd)" and "member doc ''_id'' = JOid X"
    and "cascade (schema A) = Some names"
    and "name \<in> set names" and "getModel (models E) name = Inr B"
    and "(key, field) \<in> set (fields' (schema B))" and "ref field = Some (model (schema A))"
    and "willDeleteDocument B (QObject [(key, JOid X)]) = Inr (QObject [(key, JOid X)])"
  shows "DeleteMany (getCollection B) (JObj [(key, JOid X)]) noOptions \<in> set (issued w w')"
proof (cases dd)
  case NoDocs
  then show ?thesis using assms(2) by (simp add: documents_def)
next
  case (OneDoc d)
  then have d: "d = doc" using assms(2) by (simp add: documents_def)
  obtain r1 w1 where c: "cascadeDelete E A X w = (r1, w1)"
    by (cases "cascadeDelete E A X w")
  have "r1 = Inr () \<and> w1 = w'"
    using assms(1,3) OneDoc d c by (cases r1) (auto simp: liftE_def)
  then have "cascadeDelete E A X w = (Inr (), w')" using c by simp
  then show ?thesis using assms(4-9) by (rule cascadeDelete_issues)
next
  case (ManyDocs ds)
  then have d: "doc \<in> set ds" using assms(2) by (simp add: documents_def)
  obtain r1 w1 where l: "afterDeleteLoop E A ds w = (r1, w1)"
    by (cases "afterDeleteLoop E A ds w")
  have "r1 = Inr () \<and> w1 = w'"
    using assms(1) ManyDocs l by (cases r1) (auto simp: liftE_def)
  then have "afterDeleteLoop E A ds w = (Inr (), w')" using l by simp
  then show ?thesis using d assms(3-9) by (rule afterDeleteLoop_issues)
qed

lemma deleteEach_extends:
  "deleteEach E A ds w = (r, w') \<Longrightarrow> trace_extends w w'"
proof (induction ds arbitrary: w r w')
  case Nil
  then show ?case by (simp add: trace_extends_refl)
next
  case (Cons doc rest)
  let ?c = "FindOneAndDelete (getCollection A) (JObj [(''_id'', member doc ''_id'')])"
  obtain r1 w1 where i: "invoke ?c (c_findOneAndDelete E (getCollection A)
                             (JObj [(''_id'', member doc ''_id'')])) w = (r1, w1)"
    by (cases "invoke ?c (c_findOneAndDelete E (getCollection A)
                 (JObj [(''_id'', member doc ''_id'')])) w")
  have e1: "trace_extends w w1" using invoke_extends [OF i] by simp
  show ?case
  proof (cases r1)
    case (Inl e)
    then show ?thesis using Cons.prems i e1 by simp
  next
    case (Inr res)
    obtain ok val ups where res: "res = FindAndModifyResult ok val ups" by (cases res)
    show ?thesis
    proof (cases ok)
      case False
      then show ?thesis using Cons.prems i Inr res e1 by simp
    next
      case True
      obtain r2 w2 where l: "deleteEach E A rest w1 = (r2, w2)"
        by (cases "deleteEach E A rest w1")
      have e2: "trace_extends w1 w2" using l by (rule Cons.IH)
      have "w' = w2"
        using Cons.prems i Inr res True l by (cases r2) auto
      then show ?thesis using e1 e2 trace_extends_trans(1) by blast
    qed
  qed
qed

text \<open>
  C1, as the code has it. Let \<open>B\<close> be the model registered under a name of \<open>A\<close>'s cascade
  list, let \<open>key\<close> be a field of \<open>B\<close> whose reference is \<open>A\<close>'s model name, and let \<open>B\<close>'s
  pre-delete handler leave the filter \<open>{key: X}\<close> as it is. Whenever the post-delete step
  of \<open>A\<close> is handed a deleted document whose \<open>_id\<close> is the identifier \<open>X\<close> and completes, it
  has issued the store's delete-many on \<open>B\<close>'s collection with the filter \<open>{key: X}\<close>. The
  deleted documents are handed to that step by \<open>deleteOne\<close> with \<open>returnDoc\<close> and by
  \<open>deleteMany\<close> with \<open>returnDocs\<close>, where they are the documents returned.
\<close>

theorem cascade_issues_deleteMany_on_dependents:
  assumes "cascade (schema A) = Some names"
    and "name \<in> set names" and "getModel (models E) name = Inr B"
    and "(key, field) \<in> set (fields' (schema B))" and "ref field = Some (model (schema A))"
    and "willDeleteDocument B (QObject [(key, JOid X)]) = Inr (QObject [(key, JOid X)])"
    and "member doc ''_id'' = JOid X"
  shows "(afterDelete E A dd w = (Inr u, w') \<and> doc \<in> set (documents dd) \<longrightarrow>
            DeleteMany (collection (schema B)) (JObj [(key, JOid X)]) noOptions
              \<in> set (issued w w'))
       \<and> (returnDoc opts \<and> deleteOne E A q opts w = (Inr doc, w') \<longrightarrow>
            DeleteMany (collection (schema B)) (JObj [(key, JOid X)]) noOptions
              \<in> set (issued w w'))
       \<and> (returnDocs opts \<and> deleteMany E A q opts w = (Inr (JArr ds), w') \<and> doc \<in> set ds \<longrightarrow>
            DeleteMany (collection (schema B)) (JObj [(key, JOid X)]) noOptions
              \<in> set (issued w w'))"
proof -
  let ?c = "DeleteMany (collection (schema B)) (JObj [(key, JOid X)]) noOptions"
  have after: "\<And>dd w w' u. afterDelete E A dd w = (Inr u, w') \<Longrightarrow> doc \<in> set (documents dd)
                 \<Longrightarrow> ?c \<in> set (issued w w')"
    using afterDelete_issues [OF _ _ assms(7) assms(1-6)] by (simp add: getCollection_def)
  have one: "?c \<in> set (issued w w')"
    if "returnDoc opts" and d: "deleteOne E A q opts w = (Inr doc, w')"
  proof -
    have nd: "\<not> noDeletes (schema A)"
      using d by (auto simp: deleteOne_def throwIO_def)
    obtain flt where flt: "beforeDelete E A q opts = Inr flt"
      using d nd by (cases "beforeDelete E A q opts") (auto simp: deleteOne_def bindIO_def liftE_def)
    let ?f = "FindOneAndDelete (getCollection A) (JObj flt)"
    obtain r1 w1 where i: "invoke ?f (c_findOneAndDelete E (getCollection A) (JObj flt)) w = (r1, w1)"
      by (cases "invoke ?f (c_findOneAndDelete E (getCollection A) (JObj flt)) w")
    have e1: "trace_extends w w1" using invoke_extends [OF i] by simp
    obtain ok val ups where r1: "r1 = Inr (FindAndModifyResult ok val ups)"
      using d nd flt i \<open>returnDoc opts\<close>
      by (cases r1) (auto simp: deleteOne_def bindIO_def liftE_def split: findAndModifyResult.splits)
    have rest: "(if \<not> ok then throwIO (AssertionError ''results.ok === 1'')
                 else if \<not> truthy val then returnIO JNull
                 else bindIO (afterDelete E A (OneDoc val)) (\<lambda>_. returnIO val)) w1 = (Inr doc, w')"
      using d nd flt i r1 \<open>returnDoc opts\<close> by (simp add: deleteOne_def bindIO_def liftE_def)
    have "doc \<noteq> JNull" using assms(7) by (auto simp: member_def)
    then have b: "bindIO (afterDelete E A (OneDoc val)) (\<lambda>_. returnIO val) w1 = (Inr doc, w')"
      using rest by (auto simp: throwIO_def returnIO_def split: if_splits)
    then obtain u1 where a: "afterDelete E A (OneDoc val) w1 = (Inr u1, w')" and v: "val = doc"
      by (cases rule: bindIO_E) (auto simp: returnIO_def)
    have "?c \<in> set (issued w1 w')"
      using a v by (intro after [of "OneDoc val"]) (auto simp: documents_def)
    moreover have "trace_extends w1 w'"
      using a v assms(7) cascadeDelete_extends [of E A X w1]
      by (cases "cascadeDelete E A X w1") (auto simp: liftE_def split: sum.splits)
    ultimately show ?thesis using e1 by (intro issued_mono [of w w1 w']) auto
  qed
  have many: "?c \<in> set (issued w w')"
    if "returnDocs opts" and d: "deleteMany E A q opts w = (Inr (JArr ds), w')" and m: "doc \<in> set ds"
  proof -
    have nd: "\<not> (noDeletes (schema A) \<or> noDeleteMany (schema A))"
      using d by (auto simp: deleteMany.simps)
    obtain flt where flt: "beforeDelete E A q opts = Inr flt"
      using d nd by (cases "beforeDelete E A q opts") (auto simp: deleteMany.simps)
    obtain r1 w1 where f: "findMany E A (QObject flt) w = (r1, w1)"
      by (cases "findMany E A (QObject flt) w")
    have e1: "trace_extends w w1" using f findMany_read_only read_only_extends by blast
    obtain found where r1: "r1 = Inr found"
      using d nd flt f \<open>returnDocs opts\<close> by (cases r1) (auto simp: deleteMany.simps)
    obtain r2 w2 where l: "deleteEach E A found w1 = (r2, w2)"
      by (cases "deleteEach E A found w1")
    have e2: "trace_extends w1 w2" using l by (rule deleteEach_extends)
    obtain results where r2: "r2 = Inr results"
      using d nd flt f r1 l \<open>returnDocs opts\<close> by (cases r2) (auto simp: deleteMany.simps)
    obtain r3 w3 where a: "afterDelete E A (ManyDocs results) w2 = (r3, w3)"
      by (cases "afterDelete E A (ManyDocs results) w2")
    have fin: "r3 = Inr () \<and> w3 = w' \<and> results = ds"
      using d nd flt f r1 l r2 a \<open>returnDocs opts\<close> by (cases r3) (auto simp: deleteMany.simps)
    then have "?c \<in> set (issued w2 w')"
      using a m by (intro after [of "ManyDocs results"]) (auto simp: documents_def)
    moreover have "trace_extends w2 w'"
      using a fin afterDeleteLoop_extends [of E A results w2]
      by (cases "afterDeleteLoop E A results w2") (auto simp: liftE_def split: sum.splits)
    moreover have "trace_extends w w2" using e1 e2 trace_extends_trans(1) by blast
    ultimately show ?thesis by (intro issued_mono [of w w2 w']) auto
  qed
  show ?thesis using after one many by blast
qed


lemma example_cascade_facts:
  "cascade (schema (Model AuthorSchema)) = Some [''Book'']"
  "getModel (models exampleEnv) ''Book'' = Inr (Model BookSchema)"
  "fields' (schema (Model BookSchema)) =
     [(''title'', FieldSpecs TString None True False None None None None),
      (''author'', FieldSpecs TObjectID (Some ''Author'') True False None None None None)]"
  "model (schema (Model AuthorSchema)) = ''Author''"
  "willDeleteDocument (Model BookSchema) qb = Inr qb"
  "willDeleteDocument (Model AuthorSchema) qa = Inr qa"
  "didDeleteDocument (Model BookSchema) dd = Inr ()"
  "didDeleteDocument (Model AuthorSchema) dd = Inr ()"
  "getCollection (Model AuthorSchema) = ''authors''"
  "getCollection (Model BookSchema) = ''books''"
  "\<not> noDeletes (schema (Model AuthorSchema))" "\<not> noDeleteMany (schema (Model AuthorSchema))"
  "\<not> noDeletes (schema (Model BookSchema))" "\<not> noDeleteMany (schema (Model BookSchema))"
  "new_ObjectID exampleEnv = exampleObjectID"
  by (simp_all add: Model_def AuthorSchema_def BookSchema_def exampleEnv_def exampleModels_def
        getModel_def getCollection_def)

lemma example_driver_facts:
  "c_deleteOne exampleEnv = (\<lambda>c q opts s. (Inr (WriteResult True (Some 1)), Suc s))"
  "c_deleteMany exampleEnv = (\<lambda>c q opts s. (Inr (WriteResult True (Some 1)), Suc s))"
  "c_findOneAndDelete exampleEnv = (\<lambda>c q s. (Inr (FindAndModifyResult True q JUndefined), Suc s))"
  by (simp_all add: exampleEnv_def)

lemma example_cascade_on_books:
  "deleteMany exampleEnv (Model BookSchema) (QObject [(''author'', JOid (ObjectID 7))]) noOptions
     \<lparr> store = s, trace = t \<rparr>
   = (Inr (JBool True),
      \<lparr> store = Suc s,
        trace = t @ [DeleteMany ''books'' (JObj [(''author'', JOid (ObjectID 7))]) noOptions] \<rparr>)"
proof -
  have b: "beforeDelete exampleEnv (Model BookSchema) (QObject [(''author'', JOid (ObjectID 7))])
             noOptions = Inr [(''author'', JOid (ObjectID 7))]"
    by (rule beforeDelete_reference)
       (simp_all add: example_cascade_facts hasOwnProperty_def keys_def)
  have r: "\<not> returnDocs noOptions" by (simp add: noOptions_def)
  show ?thesis
    by (simp add: deleteMany.simps b r example_cascade_facts example_driver_facts invoke_def
          liftE_def)
qed

theorem cascade_issues_deleteMany_on_dependents_witness:
  "cascade (schema (Model AuthorSchema)) = Some [''Book'']
   \<and> getModel (models exampleEnv) ''Book'' = Inr (Model BookSchema)
   \<and> (''author'', FieldSpecs TObjectID (Some ''Author'') True False None None None None)
        \<in> set (fields' (schema (Model BookSchema)))
   \<and> returnDoc (noOptions\<lparr>returnDoc := True\<rparr>)
   \<and> deleteOne exampleEnv (Model AuthorSchema) (QObjectID (ObjectID 7))
         (noOptions\<lparr>returnDoc := True\<rparr>) emptyWorld
       = (Inr (JObj [(''_id'', JOid (ObjectID 7))]),
          \<lparr> store = 2,
            trace = [FindOneAndDelete ''authors'' (JObj [(''_id'', JOid (ObjectID 7))]),
                     DeleteMany ''books'' (JObj [(''author'', JOid (ObjectID 7))]) noOptions] \<rparr>)
   \<and> DeleteMany ''books'' (JObj [(''author'', JOid (ObjectID 7))]) noOptions
        \<in> set (issued emptyWorld
                 \<lparr> store = 2,
                   trace = [FindOneAndDelete ''authors'' (JObj [(''_id'', JOid (ObjectID 7))]),
                            DeleteMany ''books'' (JObj [(''author'', JOid (ObjectID 7))])
                              noOptions] \<rparr>)"
proof -
  let ?A = "Model AuthorSchema" and ?B = "Model BookSchema"
  let ?f = "FieldSpecs TObjectID (Some ''Author'') True False None None None None"
  let ?doc = "JObj [(''_id'', JOid (ObjectID 7))]"
  let ?opts = "noOptions\<lparr>returnDoc := True\<rparr>"
  let ?w' = "\<lparr> store = 2::nat,
              trace = [FindOneAndDelete ''authors'' ?doc,
                       DeleteMany ''books'' (JObj [(''author'', JOid (ObjectID 7))]) noOptions] \<rparr>"
  have 1: "cascade (schema ?A) = Some [''Book'']"
    and 3: "getModel (models exampleEnv) ''Book'' = Inr ?B"
    by (simp_all add: example_cascade_facts)
  have 2: "''Book'' \<in> set [''Book'']" by simp
  have 4: "(''author'', ?f) \<in> set (fields' (schema ?B))"
    by (simp add: example_cascade_facts)
  have 5: "ref ?f = Some (model (schema ?A))"
    by (simp add: example_cascade_facts)
  have 6: "willDeleteDocument ?B (QObject [(''author'', JOid (ObjectID 7))])
             = Inr (QObject [(''author'', JOid (ObjectID 7))])"
    by (simp add: example_cascade_facts)
  have 7: "member ?doc ''_id'' = JOid (ObjectID 7)"
    by (simp add: member_def get_prop_def)
  have b: "beforeDelete exampleEnv ?A (QObjectID (ObjectID 7)) ?opts
             = Inr [(''_id'', JOid (ObjectID 7))]"
    by (simp add: beforeDelete_def bindE_def example_cascade_facts sanitizeQuery_value_def
          load_query_def sanitizeQuery_def new_object_def)
  have a: "afterDelete exampleEnv ?A (OneDoc ?doc)
             \<lparr> store = Suc 0, trace = [FindOneAndDelete ''authors'' ?doc] \<rparr> = (Inr (), ?w')"
    by (simp add: 7 example_cascade_facts example_cascade_on_books liftE_def)
  have i: "invoke (FindOneAndDelete ''authors'' ?doc)
             (c_findOneAndDelete exampleEnv ''authors'' ?doc) emptyWorld
           = (Inr (FindAndModifyResult True ?doc JUndefined),
              \<lparr> store = Suc 0, trace = [FindOneAndDelete ''authors'' ?doc] \<rparr>)"
    by (simp add: invoke_def example_driver_facts emptyWorld_def)
  have run: "deleteOne exampleEnv ?A (QObjectID (ObjectID 7)) ?opts emptyWorld = (Inr ?doc, ?w')"
    by (simp add: deleteOne_def b example_cascade_facts bindIO_def liftE_def i a returnIO_def
          del: afterDelete.simps)
  have rd: "returnDoc ?opts" by simp
  have "DeleteMany (collection (schema ?B)) (JObj [(''author'', JOid (ObjectID 7))]) noOptions
          \<in> set (issued emptyWorld ?w')"
    using cascade_issues_deleteMany_on_dependents [OF 1 2 3 4 5 6 7,
            where w = emptyWorld and w' = ?w' and opts = ?opts and q = "QObjectID (ObjectID 7)"]
          rd run
    by blast
  then have m: "DeleteMany ''books'' (JObj [(''author'', JOid (ObjectID 7))]) noOptions
          \<in> set (issued emptyWorld ?w')"
    using example_cascade_facts(10) by (simp add: getCollection_def)
  show ?thesis using 1 3 4 rd run m by (intro conjI)
qed

text \<open>
  C1, as stated, fails: \<open>deleteOne\<close> without \<open>returnDoc\<close> removes a document of a model
  that cascades to another and issues no call on the dependent collection, since the
  deleted document is not at hand.
\<close>

theorem deleteOne_without_returnDoc_counterexample:
  "cascade (schema (Model AuthorSchema)) = Some [''Book'']
   \<and> ref (FieldSpecs TObjectID (Some ''Author'') True False None None None None)
       = Some (model (schema (Model AuthorSchema)))
   \<and> deleteOne exampleEnv (Model AuthorSchema) (QObjectID (ObjectID 7)) noOptions emptyWorld
       = (Inr (JBool True),
          \<lparr> store = 1,
            trace = [DeleteOne ''authors'' (JObj [(''_id'', JOid (ObjectID 7))]) noOptions] \<rparr>)"
proof -
  have b: "beforeDelete exampleEnv (Model AuthorSchema) (QObjectID (ObjectID 7)) noOptions
             = Inr [(''_id'', JOid (ObjectID 7))]"
    by (simp add: beforeDelete_def bindE_def example_cascade_facts sanitizeQuery_value_def
          load_query_def sanitizeQuery_def new_object_def)
  have r: "\<not> returnDoc noOptions" by (simp add: noOptions_def)
  have i: "invoke (DeleteOne ''authors'' (JObj [(''_id'', JOid (ObjectID 7))]) noOptions)
             (c_deleteOne exampleEnv ''authors'' (JObj [(''_id'', JOid (ObjectID 7))]) noOptions)
             emptyWorld
           = (Inr (WriteResult True (Some 1)),
              \<lparr> store = 1,
                trace = [DeleteOne ''authors'' (JObj [(''_id'', JOid (ObjectID 7))]) noOptions] \<rparr>)"
    by (simp add: invoke_def example_driver_facts emptyWorld_def)
  have "deleteOne exampleEnv (Model AuthorSchema) (QObjectID (ObjectID 7)) noOptions emptyWorld
       = (Inr (JBool True),
          \<lparr> store = 1,
            trace = [DeleteOne ''authors'' (JObj [(''_id'', JOid (ObjectID 7))]) noOptions] \<rparr>)"
    by (simp add: deleteOne_def b r example_cascade_facts bindIO_def liftE_def i returnIO_def)
  then show ?thesis by (simp add: example_cascade_facts)
qed


end
